theory Spec2Isabelle
  imports Complex_Main
begin

section \<open>Arrays, errors and the library interface\<close>

text \<open>
  The operators of \<^verbatim>\<open>fdda/dshuffle.py\<close>, \<^verbatim>\<open>fdda/staug.py\<close> and
  \<^verbatim>\<open>pdda/augments/wave_aug.py\<close> work on numpy arrays of rank 1 or 2.  An array of
  rank 1 is its list of values; an array of rank 2 and shape \<open>(T, F)\<close> is stored as
  its row count \<open>T\<close> and the list of its \<open>F\<close> columns, so that \<^verbatim>\<open>signal[:, i]\<close> is
  the \<open>i\<close>-th list and a slice of rows \<^verbatim>\<open>a[:m]\<close> is the same slice of every column.
  Element values are idealised as real numbers: the rounding of IEEE arithmetic, signed
  zeros and NaN are not represented.  The only conversion of element type that the
  sources request themselves, the single precision buffer of \<^verbatim>\<open>wave_aug.py\<close>, is
  kept as a tag on the returned array together with the library's rounding function.
\<close>

datatype ndarray = Arr1 "real list" | Arr2 nat "real list list"

datatype dtype = Float32 | Float64

datatype error = ValueError string | IndexError

fun shape :: "ndarray \<Rightarrow> nat list" where
  "shape (Arr1 xs) = [length xs]"
| "shape (Arr2 T cs) = [T, length cs]"

definition ndim :: "ndarray \<Rightarrow> nat" where
  "ndim a = length (shape a)"

text \<open>A rank 2 array is well formed when each of its columns has \<open>T\<close> entries.\<close>

fun well_formed :: "ndarray \<Rightarrow> bool" where
  "well_formed (Arr1 xs) = True"
| "well_formed (Arr2 T cs) = list_all (\<lambda>c. length c = T) cs"

fun nrows :: "ndarray \<Rightarrow> nat" where
  "nrows (Arr1 xs) = length xs"
| "nrows (Arr2 T cs) = T"

fun columns :: "ndarray \<Rightarrow> real list list" where
  "columns (Arr1 xs) = [xs]"
| "columns (Arr2 T cs) = cs"

text \<open>The values in row-major order, as \<^verbatim>\<open>flatten\<close> and \<^verbatim>\<open>reshape\<close> read them.\<close>

fun ravel :: "ndarray \<Rightarrow> real list" where
  "ravel (Arr1 xs) = xs"
| "ravel (Arr2 T cs) = concat (map (\<lambda>t. map (\<lambda>c. c ! t) cs) [0..<T])"

definition reshape_col :: "ndarray \<Rightarrow> ndarray" where
  \<comment> \<open>\<^verbatim>\<open>signal.reshape(-1, 1)\<close>\<close>
  "reshape_col a = Arr2 (length (ravel a)) [ravel a]"

definition flatten :: "ndarray \<Rightarrow> ndarray" where
  "flatten a = Arr1 (ravel a)"

fun amap :: "(real \<Rightarrow> real) \<Rightarrow> ndarray \<Rightarrow> ndarray" where
  "amap f (Arr1 xs) = Arr1 (map f xs)"
| "amap f (Arr2 T cs) = Arr2 T (map (map f) cs)"

fun elems :: "ndarray \<Rightarrow> real set" where
  "elems (Arr1 xs) = set xs"
| "elems (Arr2 T cs) = (\<Union>c \<in> set cs. set c)"

subsection \<open>Python integers, slices and indexing\<close>

definition py_int :: "real \<Rightarrow> int" where
  \<comment> \<open>\<^verbatim>\<open>int(x)\<close> truncates towards zero\<close>
  "py_int x = (if x < 0 then \<lceil>x\<rceil> else \<lfloor>x\<rfloor>)"

definition slice_start :: "int \<Rightarrow> nat \<Rightarrow> nat" where
  \<comment> \<open>the position that a slice bound \<open>k\<close> denotes in a sequence of length \<open>n\<close>\<close>
  "slice_start k n = (if k < 0 then nat (int n + k) else min (nat k) n)"

definition slice_from :: "int \<Rightarrow> 'a list \<Rightarrow> 'a list" where
  \<comment> \<open>\<^verbatim>\<open>a[k:]\<close>\<close>
  "slice_from k xs = drop (slice_start k (length xs)) xs"

definition slice_to :: "int \<Rightarrow> 'a list \<Rightarrow> 'a list" where
  \<comment> \<open>\<^verbatim>\<open>a[:k]\<close>\<close>
  "slice_to k xs = take (slice_start k (length xs)) xs"

definition py_get :: "'a list \<Rightarrow> int \<Rightarrow> error + 'a" where
  \<comment> \<open>\<^verbatim>\<open>xs[i]\<close> on a Python list: a negative index counts from the end\<close>
  "py_get xs i =
     (if 0 \<le> i \<and> i < int (length xs) then Inr (xs ! nat i)
      else if i < 0 \<and> - int (length xs) \<le> i then Inr (xs ! nat (int (length xs) + i))
      else Inl IndexError)"

subsection \<open>Post-processing: offset, then clipping\<close>

definition np_clip :: "real option \<Rightarrow> real option \<Rightarrow> real \<Rightarrow> real" where
  \<comment> \<open>\<^verbatim>\<open>np.clip(x, lo, hi)\<close> is \<^verbatim>\<open>minimum(maximum(x, lo), hi)\<close>; \<^verbatim>\<open>None\<close> is no bound\<close>
  "np_clip clip_min clip_max x =
     (let y = (case clip_min of None \<Rightarrow> x | Some lo \<Rightarrow> max x lo)
      in case clip_max of None \<Rightarrow> y | Some hi \<Rightarrow> min y hi)"

text \<open>
  The offset is added to every element, also when it is \<open>0.0\<close>.  The arrays are arrays
  of floating-point numbers (numpy refuses the in-place addition of a float offset to an
  array of integers), and the model follows their values: adding \<open>0.0\<close> keeps the value
  of every element, while in IEEE arithmetic it turns a negative zero into a positive
  zero, so the statements below are about values and not about bit patterns.
\<close>

definition postprocess :: "real \<Rightarrow> real option \<Rightarrow> real option \<Rightarrow> ndarray \<Rightarrow> ndarray" where
  "postprocess offset clip_min clip_max a =
     (let a1 = amap (\<lambda>x. x + offset) a
      in if clip_min \<noteq> None \<or> clip_max \<noteq> None
         then amap (np_clip clip_min clip_max) a1 else a1)"

definition assign_col :: "nat \<Rightarrow> real list \<Rightarrow> error + real list" where
  \<comment> \<open>\<^verbatim>\<open>a[:, i] = v\<close> for a column of \<open>T\<close> rows: a value of one element is broadcast,
      any other length than \<open>T\<close> is refused\<close>
  "assign_col T v =
     (if length v = T then Inr v
      else if length v = 1 then Inr (replicate T (hd v))
      else Inl (ValueError ''could not broadcast input array''))"

subsection \<open>The libraries\<close>

text \<open>
  numpy's transforms and random generator, PyEMD and PyWavelets are outside the
  repository.  They enter as the fields of one record; \<open>'g\<close> is the state of the
  process-wide random generator, which every sampler takes and returns.  The fields
  are total functions.  What a library refuses on an argument that an operator can be
  called with is written into the operator that makes the call: the Beta sampler
  raises for a parameter that is not positive, and the mix passes its \<^verbatim>\<open>alpha\<close> on.
  An empty transform or an unknown wavelet is not modelled.
\<close>

record 'g lib =
  rfft :: "real list \<Rightarrow> complex list"
  irfft :: "complex list \<Rightarrow> nat \<Rightarrow> real list"
  argsort :: "real list \<Rightarrow> nat list"
  random_choice :: "'g \<Rightarrow> nat list \<Rightarrow> nat \<times> 'g"
  random_rand :: "'g \<Rightarrow> real \<times> 'g"
  random_rand_n :: "'g \<Rightarrow> nat \<Rightarrow> real list \<times> 'g"
  random_uniform :: "'g \<Rightarrow> nat \<Rightarrow> real list \<times> 'g"
  random_beta :: "'g \<Rightarrow> real \<Rightarrow> real \<Rightarrow> real \<times> 'g"
  emd :: "real list \<Rightarrow> int \<Rightarrow> real list list"
  wavedec :: "real list \<Rightarrow> string \<Rightarrow> int \<Rightarrow> real list list"
  waverec :: "real list list \<Rightarrow> string \<Rightarrow> real list"
  astype :: "dtype \<Rightarrow> real \<Rightarrow> real"

subsection \<open>The loop over the feature columns\<close>

text \<open>
  Every operator but the mix runs \<^verbatim>\<open>for i in range(features)\<close> over the columns,
  in order; the body reads and advances the random generator and may raise, which ends
  the loop.
\<close>

fun for_cols ::
  "('a \<Rightarrow> 'g \<Rightarrow> error + ('b \<times> 'g)) \<Rightarrow> 'a list \<Rightarrow> 'g \<Rightarrow> error + ('b list \<times> 'g)" where
  "for_cols body [] g = Inr ([], g)"
| "for_cols body (c # cs) g =
     (case body c g of
        Inl e \<Rightarrow> Inl e
      | Inr (c', g') \<Rightarrow>
          (case for_cols body cs g' of
             Inl e \<Rightarrow> Inl e
           | Inr (cs', g'') \<Rightarrow> Inr (c' # cs', g'')))"

definition normalise :: "ndarray \<Rightarrow> ndarray" where
  \<comment> \<open>\<^verbatim>\<open>if signal.ndim == 1: signal = signal.reshape(-1, 1)\<close>\<close>
  "normalise signal = (if ndim signal = 1 then reshape_col signal else signal)"

definition restore :: "nat list \<Rightarrow> ndarray \<Rightarrow> ndarray" where
  \<comment> \<open>\<^verbatim>\<open>if len(original_shape) == 1: a = a.flatten()\<close>\<close>
  "restore original_shape a = (if length original_shape = 1 then flatten a else a)"

section \<open>dshuffle.py: dominant\_shuffle\<close>

definition topk_indices :: "'g lib \<Rightarrow> int \<Rightarrow> complex list \<Rightarrow> nat list" where
  \<comment> \<open>one column of \<^verbatim>\<open>np.argsort(np.abs(signal_f[1:]), axis=0)[-int(rate):, :] + 1\<close>\<close>
  "topk_indices L rate signal_f =
     map Suc (slice_from (- rate) (argsort L (map cmod (drop 1 signal_f))))"

text \<open>
  The inner loop \<^verbatim>\<open>for j in range(topk_indices.shape[0])\<close> for one column: \<open>js\<close> are
  the entries of \<open>topk\<close> still to visit, \<open>signal_f\<close> is the spectrum as transformed and
  \<open>new_signal_f\<close> the copy that is written.  An index outside the array raises.
\<close>

fun shuffle_bins ::
  "'g lib \<Rightarrow> complex list \<Rightarrow> nat list \<Rightarrow> nat list \<Rightarrow> complex list \<Rightarrow> 'g
     \<Rightarrow> error + (complex list \<times> 'g)" where
  "shuffle_bins L signal_f topk [] new_signal_f g = Inr (new_signal_f, g)"
| "shuffle_bins L signal_f topk (idx # js) new_signal_f g =
     (let (random_idx, g') = random_choice L g topk
      in if idx < length new_signal_f \<and> random_idx < length signal_f
         then shuffle_bins L signal_f topk js (new_signal_f[idx := signal_f ! random_idx]) g'
         else Inl IndexError)"

definition shuffle_column ::
  "'g lib \<Rightarrow> int \<Rightarrow> complex list \<Rightarrow> 'g \<Rightarrow> error + (complex list \<times> 'g)" where
  "shuffle_column L rate signal_f g =
     (let topk = topk_indices L rate signal_f
      in shuffle_bins L signal_f topk topk signal_f g)"

definition dominant_shuffle ::
  "'g lib \<Rightarrow> 'g \<Rightarrow> ndarray \<Rightarrow> int \<Rightarrow> real option \<Rightarrow> real option \<Rightarrow> real
     \<Rightarrow> error + (ndarray \<times> 'g)" where
  "dominant_shuffle L g signal rate clip_min clip_max offset =
     (let original_shape = shape signal;
          signal2 = normalise signal;
          time_steps = nrows signal2;
          signal_f = map (rfft L) (columns signal2)
      in case for_cols (shuffle_column L rate) signal_f g of
           Inl e \<Rightarrow> Inl e
         | Inr (new_signal_f, g') \<Rightarrow>
             (let augmented_signal =
                    Arr2 time_steps (map (\<lambda>c. irfft L c time_steps) new_signal_f)
              in Inr (restore original_shape
                        (postprocess offset clip_min clip_max augmented_signal), g')))"

section \<open>staug.py: emd\_augmentation\<close>

definition weighted_sum :: "real list \<Rightarrow> real list list \<Rightarrow> real list" where
  \<comment> \<open>\<^verbatim>\<open>np.sum(weights[:, np.newaxis] * IMF, axis=0)\<close> for a non-empty \<open>IMF\<close>\<close>
  "weighted_sum weights IMF =
     map (\<lambda>t. sum_list (map2 (\<lambda>w m. w * m ! t) weights IMF)) [0..<length (hd IMF)]"

definition emd_column ::
  "'g lib \<Rightarrow> int \<Rightarrow> real \<Rightarrow> real \<Rightarrow> nat \<Rightarrow> real list \<Rightarrow> 'g \<Rightarrow> error + (real list \<times> 'g)" where
  "emd_column L n_imf random_weight_prob imf_rate time_steps s g =
     (let IMF = emd L s n_imf
      in if length IMF = 0
         then (case assign_col time_steps s of Inl e \<Rightarrow> Inl e | Inr v \<Rightarrow> Inr (v, g))
         else
           let n_imf_use = max 1 (py_int (real (length IMF) * imf_rate));
               IMF2 = slice_to n_imf_use IMF;
               (u, g1) = random_rand L g;
               (weights, g2) =
                 (if u < random_weight_prob
                  then (let (ws, g2) = random_rand_n L g1 (length IMF2)
                        in (map (\<lambda>w. 2 * w) ws, g2))
                  else (replicate (length IMF2) 1, g1))
           in case assign_col time_steps (weighted_sum weights IMF2) of
                Inl e \<Rightarrow> Inl e
              | Inr v \<Rightarrow> Inr (v, g2))"

definition emd_augmentation ::
  "'g lib \<Rightarrow> 'g \<Rightarrow> ndarray \<Rightarrow> int \<Rightarrow> real \<Rightarrow> real \<Rightarrow> real option \<Rightarrow> real option \<Rightarrow> real
     \<Rightarrow> error + (ndarray \<times> 'g)" where
  "emd_augmentation L g signal n_imf random_weight_prob imf_rate clip_min clip_max offset =
     (let original_shape = shape signal;
          signal2 = normalise signal;
          time_steps = nrows signal2
      in case for_cols (emd_column L n_imf random_weight_prob imf_rate time_steps)
                (columns signal2) g of
           Inl e \<Rightarrow> Inl e
         | Inr (cols, g') \<Rightarrow>
             Inr (restore original_shape
                    (postprocess offset clip_min clip_max (Arr2 time_steps cols)), g'))"

section \<open>staug.py: mix\_augmentation\<close>

definition mix_prefix :: "real \<Rightarrow> nat \<Rightarrow> real list \<Rightarrow> real list \<Rightarrow> real list" where
  \<comment> \<open>one column of \<^verbatim>\<open>mixed[:m] = lam * signal1[:m] + (1 - lam) * signal2[:m]\<close>\<close>
  "mix_prefix lam k c1 c2 =
     map2 (\<lambda>a b. lam * a + (1 - lam) * b) (take k c1) (take k c2) @ drop k c1"

fun mix_rows :: "real \<Rightarrow> nat \<Rightarrow> ndarray \<Rightarrow> ndarray \<Rightarrow> ndarray" where
  "mix_rows lam k (Arr1 xs) (Arr1 ys) = Arr1 (mix_prefix lam k xs ys)"
| "mix_rows lam k (Arr2 T cs) (Arr2 T' ds) = Arr2 T (map2 (mix_prefix lam k) cs ds)"
| "mix_rows lam k a b = a"

definition np_random_beta :: "'g lib \<Rightarrow> 'g \<Rightarrow> real \<Rightarrow> real \<Rightarrow> error + (real \<times> 'g)" where
  \<comment> \<open>\<^verbatim>\<open>np.random.beta(a, b)\<close>: numpy raises \<^verbatim>\<open>ValueError\<close> for a parameter that is not
      positive, the first parameter first, and samples otherwise\<close>
  "np_random_beta L g a b =
     (if a \<le> 0 then Inl (ValueError ''a <= 0'')
      else if b \<le> 0 then Inl (ValueError ''b <= 0'')
      else Inr (random_beta L g a b))"

definition mix_augmentation ::
  "'g lib \<Rightarrow> 'g \<Rightarrow> ndarray \<Rightarrow> ndarray \<Rightarrow> real \<Rightarrow> real \<Rightarrow> real option \<Rightarrow> real option \<Rightarrow> real
     \<Rightarrow> error + (ndarray \<times> 'g)" where
  "mix_augmentation L g signal1 signal2 alpha mix_rate clip_min clip_max offset =
     (if shape signal1 \<noteq> shape signal2
      then Inl (ValueError ''Input signals must have the same shape.'')
      else
        (case np_random_beta L g alpha alpha of
           Inl e \<Rightarrow> Inl e
         | Inr (lam, g') \<Rightarrow>
             (let mix_length = py_int (real (nrows signal1) * mix_rate);
                  mixed_signal =
                    mix_rows lam (slice_start mix_length (nrows signal1)) signal1 signal2
              in Inr (postprocess offset clip_min clip_max mixed_signal, g'))))"

section \<open>wave\_aug.py: WaveAug\<close>

text \<open>
  The array that \<^verbatim>\<open>np.empty_like(signal, dtype=np.float32)\<close> makes and the operators
  return: its element type, and its values.  A value stored in it is converted by the
  library (\<open>astype\<close>).
\<close>

record typed_array =
  dtype :: dtype
  array :: ndarray

definition store_col :: "'g lib \<Rightarrow> dtype \<Rightarrow> nat \<Rightarrow> real list \<Rightarrow> error + real list" where
  \<comment> \<open>\<^verbatim>\<open>s_mask[:, col] = v\<close> into a buffer of element type \<open>d\<close>\<close>
  "store_col L d T v = assign_col T (map (astype L d) v)"

definition select_rate :: "real list \<Rightarrow> nat \<Rightarrow> error + real" where
  \<comment> \<open>\<^verbatim>\<open>rates[min(i, len(rates) - 1)]\<close>\<close>
  "select_rate rates i = py_get rates (min (int i) (int (length rates) - 1))"

text \<open>
  The masking loop \<^verbatim>\<open>for i in range(1, len(coeffs))\<close>, from level \<open>i\<close> on: \<open>cs\<close> are
  \<^verbatim>\<open>coeffs[i:]\<close>.
\<close>

fun mask_levels ::
  "'g lib \<Rightarrow> real list \<Rightarrow> nat \<Rightarrow> real list list \<Rightarrow> 'g \<Rightarrow> error + (real list list \<times> 'g)" where
  "mask_levels L rates i [] g = Inr ([], g)"
| "mask_levels L rates i (c_i # cs) g =
     (case select_rate rates i of
        Inl e \<Rightarrow> Inl e
      | Inr selected_rate \<Rightarrow>
          (let (us, g') = random_uniform L g (length c_i);
               m = map (\<lambda>u. u < selected_rate) us;
               c_new = map2 (\<lambda>b c. if b then 0 else c) m c_i
           in (case mask_levels L rates (Suc i) cs g' of
                 Inl e \<Rightarrow> Inl e
               | Inr (cs', g'') \<Rightarrow> Inr (c_new # cs', g''))))"

definition mask_coeffs ::
  "'g lib \<Rightarrow> real list \<Rightarrow> real list list \<Rightarrow> 'g \<Rightarrow> error + (real list list \<times> 'g)" where
  "mask_coeffs L rates coeffs g =
     (case mask_levels L rates 1 (drop 1 coeffs) g of
        Inl e \<Rightarrow> Inl e
      | Inr (cs', g') \<Rightarrow> Inr (take 1 coeffs @ cs', g'))"

definition augment_column ::
  "'g lib \<Rightarrow> real list \<Rightarrow> string \<Rightarrow> int \<Rightarrow> nat \<Rightarrow> real list \<Rightarrow> 'g
     \<Rightarrow> error + (real list \<times> 'g)" where
  "augment_column L rates wavelet level time_steps col g =
     (let coeffs = wavedec L col wavelet level
      in case mask_coeffs L rates coeffs g of
           Inl e \<Rightarrow> Inl e
         | Inr (coeffs', g') \<Rightarrow>
             (let s = waverec L coeffs' wavelet
              in (case store_col L Float32 time_steps (take time_steps s) of
                    Inl e \<Rightarrow> Inl e
                  | Inr v \<Rightarrow> Inr (v, g'))))"

definition augment ::
  "'g lib \<Rightarrow> 'g \<Rightarrow> ndarray \<Rightarrow> real list \<Rightarrow> string \<Rightarrow> int \<Rightarrow> error + (typed_array \<times> 'g)" where
  "augment L g signal rates wavelet level =
     (let original_shape = shape signal;
          signal2 = normalise signal;
          time_steps = nrows signal2
      in case for_cols (augment_column L rates wavelet level time_steps) (columns signal2) g of
           Inl e \<Rightarrow> Inl e
         | Inr (cols, g') \<Rightarrow>
             Inr (\<lparr>dtype = Float32, array = restore original_shape (Arr2 time_steps cols)\<rparr>, g'))"

definition np_where :: "bool list \<Rightarrow> real list \<Rightarrow> real list \<Rightarrow> error + real list" where
  \<comment> \<open>\<^verbatim>\<open>np.where(mask, c1, c2)\<close>, where the mask \<open>msk\<close> has the shape of \<open>c1\<close>; an operand of one
      element is broadcast\<close>
  "np_where msk c1 c2 =
     (if length c2 = length c1 then Inr (map (\<lambda>(b, x, y). if b then x else y) (zip msk (zip c1 c2)))
      else if length c2 = 1 then Inr (map2 (\<lambda>b x. if b then x else hd c2) msk c1)
      else if length c1 = 1 then Inr (map (\<lambda>y. if hd msk then hd c1 else y) c2)
      else Inl (ValueError ''operands could not be broadcast together''))"

text \<open>
  The mixing loop \<^verbatim>\<open>for i in range(len(coeffs1))\<close>, from level \<open>i\<close> on: \<open>cs1\<close> are
  \<^verbatim>\<open>coeffs1[i:]\<close>, and \<^verbatim>\<open>coeffs2[i]\<close> raises when \<open>coeffs2\<close> is shorter.
\<close>

fun mix_levels ::
  "'g lib \<Rightarrow> real list \<Rightarrow> real list list \<Rightarrow> nat \<Rightarrow> real list list \<Rightarrow> 'g
     \<Rightarrow> error + (real list list \<times> 'g)" where
  "mix_levels L rates coeffs2 i [] g = Inr ([], g)"
| "mix_levels L rates coeffs2 i (c1 # cs1) g =
     (if length coeffs2 \<le> i then Inl IndexError
      else
        let c2 = coeffs2 ! i
        in case select_rate rates i of
             Inl e \<Rightarrow> Inl e
           | Inr selected_rate \<Rightarrow>
               (let (us, g') = random_uniform L g (length c1);
                    msk = map (\<lambda>u. u < selected_rate) us
                in (case np_where msk c1 c2 of
                      Inl e \<Rightarrow> Inl e
                    | Inr mixed_c \<Rightarrow>
                        (case mix_levels L rates coeffs2 (Suc i) cs1 g' of
                           Inl e \<Rightarrow> Inl e
                         | Inr (cs', g'') \<Rightarrow> Inr (mixed_c # cs', g'')))))"

definition augment_multi_column ::
  "'g lib \<Rightarrow> real list \<Rightarrow> string \<Rightarrow> int \<Rightarrow> nat \<Rightarrow> real list \<times> real list \<Rightarrow> 'g
     \<Rightarrow> error + (real list \<times> 'g)" where
  "augment_multi_column L rates wavelet level time_steps cc g =
     (let coeffs1 = wavedec L (fst cc) wavelet level;
          coeffs2 = wavedec L (snd cc) wavelet level
      in case mix_levels L rates coeffs2 0 coeffs1 g of
           Inl e \<Rightarrow> Inl e
         | Inr (mixed_coeffs, g') \<Rightarrow>
             (let s = waverec L mixed_coeffs wavelet
              in (case store_col L Float32 time_steps (take time_steps s) of
                    Inl e \<Rightarrow> Inl e
                  | Inr v \<Rightarrow> Inr (v, g'))))"

definition augment_multi ::
  "'g lib \<Rightarrow> 'g \<Rightarrow> ndarray \<Rightarrow> ndarray \<Rightarrow> real list \<Rightarrow> string \<Rightarrow> int
     \<Rightarrow> error + (typed_array \<times> 'g)" where
  "augment_multi L g signal1 signal2 rates wavelet level =
     (if shape signal1 \<noteq> shape signal2
      then Inl (ValueError ''Input signals must have the same shape'')
      else
        let original_shape = shape signal1;
            s1 = normalise signal1;
            s2 = normalise signal2;
            time_steps = nrows s1
        in case for_cols (augment_multi_column L rates wavelet level time_steps)
                  (zip (columns s1) (columns s2)) g of
             Inl e \<Rightarrow> Inl e
           | Inr (cols, g') \<Rightarrow>
               Inr (\<lparr>dtype = Float32, array = restore original_shape (Arr2 time_steps cols)\<rparr>, g'))"

section \<open>A small library instance for running the operators\<close>

text \<open>
  To run the operators on concrete arrays the library record is filled with small
  computable functions that have the shapes of the real ones.  They are stand-ins, not
  the transforms themselves: the spectrum keeps the first \<open>n div 2 + 1\<close> samples, the
  sort is a stable insertion sort of the indices, the decomposition splits a column
  into its deviation from its first sample and the rest, the wavelet is the averaging
  Haar filter with symmetric extension, single precision rounds down to sixteenths, and
  the random generator is a linear congruence on the numbers below 16.
\<close>

definition lcg :: "nat \<Rightarrow> nat" where
  "lcg g = (5 * g + 3) mod 16"

definition u01 :: "nat \<Rightarrow> real" where
  "u01 g = real (g mod 16) / 16"

fun u01_n :: "nat \<Rightarrow> nat \<Rightarrow> real list \<times> nat" where
  "u01_n g 0 = ([], g)"
| "u01_n g (Suc n) = (let (us, g') = u01_n (lcg g) n in (u01 g # us, g'))"

definition choice_ref :: "nat \<Rightarrow> nat list \<Rightarrow> nat \<times> nat" where
  "choice_ref g xs = (xs ! (g mod length xs), lcg g)"

definition rfft_ref :: "real list \<Rightarrow> complex list" where
  "rfft_ref xs = map complex_of_real (take (length xs div 2 + 1) xs)"

definition irfft_ref :: "complex list \<Rightarrow> nat \<Rightarrow> real list" where
  "irfft_ref zs n = take n (map Re zs @ replicate n 0)"

definition argsort_ref :: "real list \<Rightarrow> nat list" where
  "argsort_ref xs = sort_key (\<lambda>i. xs ! i) [0..<length xs]"

definition emd_ref :: "real list \<Rightarrow> int \<Rightarrow> real list list" where
  "emd_ref s n_imf =
     (if list_all (\<lambda>x. x = hd s) s then []
      else take (nat n_imf) [map (\<lambda>x. x - hd s) s, map (\<lambda>x. hd s) s])"

fun haar_step :: "real list \<Rightarrow> real list \<times> real list" where
  "haar_step [] = ([], [])"
| "haar_step [x] = ([x], [0])"
| "haar_step (x # y # xs) = (let (a, d) = haar_step xs in ((x + y) / 2 # a, (x - y) / 2 # d))"

fun haar_merge :: "real list \<Rightarrow> real list \<Rightarrow> real list" where
  "haar_merge (a # as) (d # ds) = (a + d) # (a - d) # haar_merge as ds"
| "haar_merge as ds = []"

fun haar_dec :: "nat \<Rightarrow> real list \<Rightarrow> real list list" where
  "haar_dec 0 xs = [xs]"
| "haar_dec (Suc n) xs = (let (a, d) = haar_step xs in haar_dec n a @ [d])"

fun haar_rec :: "real list \<Rightarrow> real list list \<Rightarrow> real list" where
  "haar_rec a [] = a"
| "haar_rec a (d # ds) = haar_rec (haar_merge a d) ds"

definition wavedec_ref :: "real list \<Rightarrow> string \<Rightarrow> int \<Rightarrow> real list list" where
  "wavedec_ref xs wavelet level = haar_dec (nat level) xs"

definition waverec_ref :: "real list list \<Rightarrow> string \<Rightarrow> real list" where
  "waverec_ref cs wavelet = (case cs of [] \<Rightarrow> [] | a # ds \<Rightarrow> haar_rec a ds)"

definition astype_ref :: "dtype \<Rightarrow> real \<Rightarrow> real" where
  "astype_ref d x = (case d of Float64 \<Rightarrow> x | Float32 \<Rightarrow> real_of_int \<lfloor>x * 16\<rfloor> / 16)"

definition ref_lib :: "nat lib" where
  "ref_lib =
     \<lparr>rfft = rfft_ref, irfft = irfft_ref, argsort = argsort_ref,
      random_choice = choice_ref,
      random_rand = (\<lambda>g. (u01 g, lcg g)),
      random_rand_n = u01_n,
      random_uniform = u01_n,
      random_beta = (\<lambda>g a b. (u01 g, lcg g)),
      emd = emd_ref, wavedec = wavedec_ref, waverec = waverec_ref, astype = astype_ref\<rparr>"

section \<open>What the operators rely on from the libraries\<close>

definition rfft_ok :: "'g lib \<Rightarrow> bool" where
  \<comment> \<open>the one-sided spectrum of \<open>n > 0\<close> samples has \<open>n div 2 + 1\<close> bins\<close>
  "rfft_ok L = (\<forall>xs. xs \<noteq> [] \<longrightarrow> length (rfft L xs) = length xs div 2 + 1)"

definition irfft_ok :: "'g lib \<Rightarrow> bool" where
  \<comment> \<open>\<^verbatim>\<open>irfft(a, n=n)\<close> has \<open>n\<close> samples\<close>
  "irfft_ok L = (\<forall>zs n. length (irfft L zs n) = n)"

definition argsort_ok :: "'g lib \<Rightarrow> bool" where
  \<comment> \<open>\<^verbatim>\<open>argsort\<close> returns a permutation of the indices\<close>
  "argsort_ok L = (\<forall>xs. distinct (argsort L xs) \<and> set (argsort L xs) = {..<length xs})"

definition choice_ok :: "'g lib \<Rightarrow> bool" where
  \<comment> \<open>\<^verbatim>\<open>np.random.choice(a)\<close> returns an element of \<open>a\<close>\<close>
  "choice_ok L = (\<forall>g xs. xs \<noteq> [] \<longrightarrow> fst (random_choice L g xs) \<in> set xs)"

definition uniform_ok :: "'g lib \<Rightarrow> bool" where
  \<comment> \<open>\<^verbatim>\<open>np.random.uniform(0, 1, shape)\<close> has the shape asked for\<close>
  "uniform_ok L = (\<forall>g n. length (fst (random_uniform L g n)) = n)"

definition emd_ok :: "'g lib \<Rightarrow> bool" where
  \<comment> \<open>every intrinsic mode function has the length of the decomposed column\<close>
  "emd_ok L = (\<forall>s n. list_all (\<lambda>m. length m = length s) (emd L s n))"

definition wavelet_ok :: "'g lib \<Rightarrow> bool" where
  \<comment> \<open>the lengths of the coefficient arrays depend on the length of the column only, and
      from coefficient arrays of these lengths the inverse transform returns at least as
      many samples as the column has\<close>
  "wavelet_ok L =
     ((\<forall>x y w l. length x = length y \<longrightarrow>
          map length (wavedec L x w l) = map length (wavedec L y w l))
      \<and> (\<forall>x w l cs. map length cs = map length (wavedec L x w l) \<longrightarrow>
          length x \<le> length (waverec L cs w)))"

section \<open>The draws of a run\<close>

text \<open>
  The replacement indices that the inner loop of \<^verbatim>\<open>dominant_shuffle\<close> draws for one
  column, in the order of the loop: \<open>n\<close> calls of \<^verbatim>\<open>np.random.choice(topk)\<close> from the
  generator state \<open>g\<close>.
\<close>

fun choice_draws :: "'g lib \<Rightarrow> 'g \<Rightarrow> nat list \<Rightarrow> nat \<Rightarrow> nat list" where
  "choice_draws L g topk 0 = []"
| "choice_draws L g topk (Suc n) =
     (let (r, g') = random_choice L g topk in r # choice_draws L g' topk n)"

text \<open>
  The uniform samples that a loop over coefficient arrays of the lengths \<open>ns\<close> draws,
  one array of samples for each coefficient array.
\<close>

fun uniform_draws :: "'g lib \<Rightarrow> 'g \<Rightarrow> nat list \<Rightarrow> real list list" where
  "uniform_draws L g [] = []"
| "uniform_draws L g (n # ns) =
     (let (us, g') = random_uniform L g n in us # uniform_draws L g' ns)"

section \<open>Arrays and the column loop\<close>

lemma amap_id: "amap (\<lambda>x. x) a = a"
  by (cases a) (simp_all add: map_idI)

lemma shape_amap: "shape (amap f a) = shape a"
  by (cases a) simp_all

lemma columns_normalise: "columns (normalise a) = columns a"
  by (cases a) (simp_all add: normalise_def ndim_def reshape_col_def)

lemma nrows_normalise: "nrows (normalise a) = nrows a"
  by (cases a) (simp_all add: normalise_def ndim_def reshape_col_def)

lemma ravel_single: "length c = T \<Longrightarrow> ravel (Arr2 T [c]) = c"
proof -
  assume l: "length c = T"
  have "concat (map (\<lambda>t. [c ! t]) [0..<length c]) = map (\<lambda>t. c ! t) [0..<length c]"
    by (induction "[0..<length c]") (simp_all add: concat_map_singleton)
  also have "\<dots> = c" by (rule map_nth)
  finally show ?thesis using l by simp
qed

lemma amap_amap: "amap f (amap h a) = amap (\<lambda>x. f (h x)) a"
  by (cases a) (simp_all add: comp_def)

lemma elems_amap: "elems (amap f a) = f ` elems a"
  by (cases a) auto

lemma columns_amap: "columns (amap f a) = map (map f) (columns a)"
  by (cases a) simp_all

lemma wf_amap: "well_formed (amap f a) = well_formed a"
  by (cases a) (simp_all add: list_all_iff)

lemma np_clip_None: "np_clip None None x = x"
  by (simp add: np_clip_def)

lemma np_clip_bounds:
  "lo \<le> hi \<Longrightarrow> lo \<le> np_clip (Some lo) (Some hi) x \<and> np_clip (Some lo) (Some hi) x \<le> hi"
  by (simp add: np_clip_def)

lemma postprocess_eq:
  "postprocess offset clip_min clip_max a = amap (\<lambda>x. np_clip clip_min clip_max (x + offset)) a"
  by (cases "clip_min \<noteq> None \<or> clip_max \<noteq> None")
     (auto simp: postprocess_def Let_def amap_amap np_clip_None)

lemma restore_rank1:
  "length c = length xs \<Longrightarrow> restore (shape (Arr1 xs)) (Arr2 (length xs) [c]) = Arr1 c"
  by (simp add: restore_def flatten_def ravel_single del: ravel.simps)

lemma restore_rank2: "restore (shape (Arr2 T cs)) a = a"
  by (simp add: restore_def)

lemma restore_shape:
  assumes "length cols = length (columns signal)"
    and "list_all (\<lambda>c. length c = nrows signal) cols"
  shows "shape (restore (shape signal) (Arr2 (nrows signal) cols)) = shape signal"
proof (cases signal)
  case (Arr1 xs)
  with assms obtain c where c: "cols = [c]" "length c = length xs"
    by (cases cols) auto
  then show ?thesis using Arr1 by (simp add: restore_rank1 del: shape.simps) simp
next
  case (Arr2 T cs)
  with assms show ?thesis by (simp add: restore_def)
qed

lemma restore_wf:
  assumes "length cols = length (columns signal)"
    and "list_all (\<lambda>c. length c = nrows signal) cols"
  shows "well_formed (restore (shape signal) (Arr2 (nrows signal) cols))"
proof (cases signal)
  case (Arr1 xs)
  with assms obtain c where c: "cols = [c]" "length c = length xs"
    by (cases cols) auto
  then show ?thesis using Arr1 by (simp add: restore_rank1 del: shape.simps)
next
  case (Arr2 T cs)
  with assms show ?thesis by (simp add: restore_def)
qed

lemma restore_columns:
  assumes "length cols = length (columns signal)"
    and "list_all (\<lambda>c. length c = nrows signal) cols"
  shows "columns (restore (shape signal) (Arr2 (nrows signal) cols)) = cols"
proof (cases signal)
  case (Arr1 xs)
  with assms obtain c where c: "cols = [c]" "length c = length xs"
    by (cases cols) auto
  then show ?thesis using Arr1 by (simp add: restore_rank1 del: shape.simps)
next
  case (Arr2 T cs)
  with assms show ?thesis by (simp add: restore_def)
qed

lemma restore_amap:
  assumes "length cols = length (columns signal)"
    and "list_all (\<lambda>c. length c = nrows signal) cols"
  shows "restore (shape signal) (amap f (Arr2 (nrows signal) cols))
         = amap f (restore (shape signal) (Arr2 (nrows signal) cols))"
proof (cases signal)
  case (Arr1 xs)
  with assms obtain c where c: "cols = [c]" "length c = length xs"
    by (cases cols) auto
  have "restore (shape (Arr1 xs)) (Arr2 (length xs) [map f c]) = Arr1 (map f c)"
    using c by (intro restore_rank1) simp
  then show ?thesis using Arr1 c by (simp add: restore_rank1 del: shape.simps)
next
  case (Arr2 T cs)
  then show ?thesis by (simp add: restore_def)
qed

lemma elems_columns: "elems a = (\<Union>c \<in> set (columns a). set c)"
  by (cases a) simp_all

lemma for_cols_length:
  "for_cols body cs g = Inr (cs', g') \<Longrightarrow> length cs' = length cs"
  by (induction cs arbitrary: g cs') (auto split: sum.splits prod.splits)

lemma for_cols_nth:
  "for_cols body cs g = Inr (cs', g') \<Longrightarrow> i < length cs \<Longrightarrow>
     \<exists>g0 g1. body (cs ! i) g0 = Inr (cs' ! i, g1)"
proof (induction cs arbitrary: g cs' i)
  case Nil
  then show ?case by simp
next
  case (Cons c cs)
  from Cons.prems(1) obtain c' g1 cs1 where
    b: "body c g = Inr (c', g1)" and r: "for_cols body cs g1 = Inr (cs1, g')" and e: "cs' = c' # cs1"
    by (auto split: sum.splits prod.splits)
  show ?case
  proof (cases i)
    case 0
    with b e show ?thesis by auto
  next
    case (Suc j)
    with Cons.prems(2) have "j < length cs" by simp
    from Cons.IH[OF r this] show ?thesis using Suc e by simp
  qed
qed

lemma for_cols_all:
  assumes "for_cols body cs g = Inr (cs', g')"
    and "\<And>c g0 c' g1. c \<in> set cs \<Longrightarrow> body c g0 = Inr (c', g1) \<Longrightarrow> P c'"
  shows "list_all P cs'"
proof -
  have "\<forall>i<length cs'. P (cs' ! i)"
  proof (intro allI impI)
    fix i assume "i < length cs'"
    then have i: "i < length cs" using for_cols_length[OF assms(1)] by simp
    from for_cols_nth[OF assms(1) i] obtain g0 g1 where "body (cs ! i) g0 = Inr (cs' ! i, g1)"
      by blast
    with assms(2) i show "P (cs' ! i)" by (meson nth_mem)
  qed
  then show ?thesis by (simp add: list_all_length)
qed

lemma for_cols_pure:
  "(\<And>c g0. c \<in> set cs \<Longrightarrow> body c g0 = Inr (f c, g0)) \<Longrightarrow> for_cols body cs g = Inr (map f cs, g)"
  by (induction cs arbitrary: g) simp_all

section \<open>Which errors the operators raise\<close>

lemma for_cols_Inl:
  "for_cols body cs g = Inl e \<Longrightarrow> \<exists>c g0. c \<in> set cs \<and> body c g0 = Inl e"
proof (induction cs arbitrary: g)
  case Nil
  then show ?case by simp
next
  case (Cons c cs)
  show ?case
  proof (cases "body c g")
    case (Inl e')
    with Cons.prems have "body c g = Inl e" by simp
    then show ?thesis by auto
  next
    case (Inr r)
    obtain c' g' where r: "r = (c', g')" by (cases r)
    with Inr Cons.prems have "for_cols body cs g' = Inl e"
      by (simp split: sum.splits prod.splits)
    from Cons.IH[OF this] show ?thesis by auto
  qed
qed

lemma assign_col_Inl: "assign_col T v = Inl e \<Longrightarrow> e = ValueError ''could not broadcast input array''"
  by (auto simp: assign_col_def split: if_splits)

lemma select_rate_Inl: "select_rate rates i = Inl e \<Longrightarrow> e = IndexError"
  by (auto simp: select_rate_def py_get_def Let_def split: if_splits)

lemma np_where_Inl:
  "np_where m c1 c2 = Inl e \<Longrightarrow> e = ValueError ''operands could not be broadcast together''"
  by (auto simp: np_where_def split: if_splits)

lemma mix_levels_Inl:
  "mix_levels L rates coeffs2 i cs1 g = Inl e \<Longrightarrow>
     e = IndexError \<or> e = ValueError ''operands could not be broadcast together''"
proof (induction cs1 arbitrary: i g)
  case Nil
  then show ?case by simp
next
  case (Cons c1 cs1)
  then show ?case
    by (auto simp: Let_def split: if_splits sum.splits prod.splits
             dest: select_rate_Inl np_where_Inl)
qed

lemma augment_multi_column_Inl:
  "augment_multi_column L rates wavelet level T cc g = Inl e \<Longrightarrow>
     e = IndexError \<or> e = ValueError ''operands could not be broadcast together''
     \<or> e = ValueError ''could not broadcast input array''"
  by (auto simp: augment_multi_column_def store_col_def Let_def split: sum.splits prod.splits
           dest: mix_levels_Inl assign_col_Inl)

lemma augment_multi_Inl:
  "augment_multi L g s1 s2 rates wavelet level = Inl e \<Longrightarrow> shape s1 = shape s2 \<Longrightarrow>
     e = IndexError \<or> e = ValueError ''operands could not be broadcast together''
     \<or> e = ValueError ''could not broadcast input array''"
  by (auto simp: augment_multi_def Let_def split: sum.splits prod.splits if_splits
           dest!: for_cols_Inl augment_multi_column_Inl)

lemma mix_augmentation_Inr:
  "shape s1 = shape s2 \<Longrightarrow> 0 < alpha \<Longrightarrow>
   \<exists>r. mix_augmentation L g s1 s2 alpha mix_rate cmin cmax offset = Inr r"
  by (simp add: mix_augmentation_def np_random_beta_def Let_def split: prod.splits)

lemma mix_augmentation_Inl:
  "mix_augmentation L g s1 s2 alpha mix_rate cmin cmax offset = Inl e \<Longrightarrow>
   shape s1 = shape s2 \<Longrightarrow> e = ValueError ''a <= 0''"
  by (auto simp: mix_augmentation_def np_random_beta_def Let_def split: if_splits prod.splits)

section \<open>The mix\<close>

lemma map2_fst: "length cs = length ds \<Longrightarrow> map2 (\<lambda>c d. c) cs ds = cs"
  by (induction cs ds rule: list_induct2) simp_all

lemma mix_prefix_zero: "mix_prefix lam 0 c1 c2 = c1"
  by (simp add: mix_prefix_def)

lemma mix_prefix_zero_fun: "mix_prefix lam 0 = (\<lambda>c1 c2. c1)"
  by (intro ext) (rule mix_prefix_zero)

lemma mix_rows_zero: "shape signal1 = shape signal2 \<Longrightarrow> mix_rows lam 0 signal1 signal2 = signal1"
  by (cases signal1; cases signal2) (simp_all add: mix_prefix_zero_fun map2_fst)

lemma py_int_zero: "py_int 0 = 0"
  by (simp add: py_int_def)

lemma slice_start_zero: "slice_start 0 n = 0"
  by (simp add: slice_start_def)

section \<open>Post-processing and the restored shape\<close>

lemma assign_col_length: "assign_col T v = Inr w \<Longrightarrow> length w = T"
  by (auto simp: assign_col_def split: if_splits)

lemma finish_amap:
  assumes "length cols = length (columns signal)"
    and "list_all (\<lambda>c. length c = nrows signal) cols"
  shows "restore (shape signal) (postprocess offset clip_min clip_max (Arr2 (nrows signal) cols))
         = amap (\<lambda>x. np_clip clip_min clip_max (x + offset))
             (restore (shape signal) (Arr2 (nrows signal) cols))"
  unfolding postprocess_eq by (rule restore_amap[OF assms])

lemma finish_plain:
  "restore sh (postprocess 0 None None a) = restore sh a"
  by (simp add: postprocess_eq np_clip_None amap_id)

lemma finish_shape:
  assumes "length cols = length (columns signal)"
    and "list_all (\<lambda>c. length c = nrows signal) cols"
  shows "shape (restore (shape signal)
           (postprocess offset clip_min clip_max (Arr2 (nrows signal) cols))) = shape signal"
  by (simp add: finish_amap[OF assms] shape_amap restore_shape[OF assms])

lemma finish_wf:
  assumes "length cols = length (columns signal)"
    and "list_all (\<lambda>c. length c = nrows signal) cols"
  shows "well_formed (restore (shape signal)
           (postprocess offset clip_min clip_max (Arr2 (nrows signal) cols)))"
  by (simp add: finish_amap[OF assms] wf_amap restore_wf[OF assms])

lemma finish_columns:
  assumes "length cols = length (columns signal)"
    and "list_all (\<lambda>c. length c = nrows signal) cols"
  shows "columns (restore (shape signal)
           (postprocess offset clip_min clip_max (Arr2 (nrows signal) cols)))
         = map (map (\<lambda>x. np_clip clip_min clip_max (x + offset))) cols"
  by (simp add: finish_amap[OF assms] columns_amap restore_columns[OF assms])

lemma elems_clipped:
  assumes "lo \<le> hi"
  shows "elems (amap (\<lambda>x. np_clip (Some lo) (Some hi) (x + offset)) a) \<subseteq> {lo..hi}"
  using np_clip_bounds[OF assms] by (auto simp: elems_amap)

section \<open>The three operators of fdda, as a column loop followed by the post-processing\<close>

lemma emd_column_length:
  "emd_column L n_imf p r T s g = Inr (v, g') \<Longrightarrow> length v = T"
  by (auto simp: emd_column_def Let_def split: if_splits sum.splits prod.splits
           dest: assign_col_length)

lemma emd_augmentation_Inr:
  assumes "emd_augmentation L g signal n_imf p r clip_min clip_max offset = Inr (out, g')"
  obtains cols where
    "for_cols (emd_column L n_imf p r (nrows signal)) (columns signal) g = Inr (cols, g')"
    "length cols = length (columns signal)"
    "list_all (\<lambda>c. length c = nrows signal) cols"
    "out = restore (shape signal) (postprocess offset clip_min clip_max (Arr2 (nrows signal) cols))"
proof -
  from assms obtain cols where
    f: "for_cols (emd_column L n_imf p r (nrows signal)) (columns signal) g = Inr (cols, g')"
    and o: "out = restore (shape signal)
               (postprocess offset clip_min clip_max (Arr2 (nrows signal) cols))"
    by (auto simp: emd_augmentation_def Let_def columns_normalise nrows_normalise
             split: sum.splits prod.splits)
  have "list_all (\<lambda>c. length c = nrows signal) cols"
    by (rule for_cols_all[OF f]) (rule emd_column_length)
  with f o for_cols_length[OF f] that show ?thesis by blast
qed

lemma emd_augmentation_of_cols:
  "for_cols (emd_column L n_imf p r (nrows signal)) (columns signal) g = Inr (cols, g') \<Longrightarrow>
   emd_augmentation L g signal n_imf p r clip_min clip_max offset
     = Inr (restore (shape signal)
              (postprocess offset clip_min clip_max (Arr2 (nrows signal) cols)), g')"
  by (simp add: emd_augmentation_def Let_def columns_normalise nrows_normalise)

lemma dominant_shuffle_Inr:
  assumes "dominant_shuffle L g signal rate clip_min clip_max offset = Inr (out, g')"
    and "irfft_ok L"
  obtains new_signal_f where
    "for_cols (shuffle_column L rate) (map (rfft L) (columns signal)) g = Inr (new_signal_f, g')"
    "length new_signal_f = length (columns signal)"
    "list_all (\<lambda>c. length c = nrows signal) (map (\<lambda>c. irfft L c (nrows signal)) new_signal_f)"
    "out = restore (shape signal) (postprocess offset clip_min clip_max
             (Arr2 (nrows signal) (map (\<lambda>c. irfft L c (nrows signal)) new_signal_f)))"
proof -
  from assms(1) obtain nf where
    f: "for_cols (shuffle_column L rate) (map (rfft L) (columns signal)) g = Inr (nf, g')"
    and o: "out = restore (shape signal) (postprocess offset clip_min clip_max
             (Arr2 (nrows signal) (map (\<lambda>c. irfft L c (nrows signal)) nf)))"
    by (auto simp: dominant_shuffle_def Let_def columns_normalise nrows_normalise
             split: sum.splits prod.splits)
  have "list_all (\<lambda>c. length c = nrows signal) (map (\<lambda>c. irfft L c (nrows signal)) nf)"
    using assms(2) by (simp add: irfft_ok_def list_all_iff)
  moreover have "length nf = length (columns signal)"
    using for_cols_length[OF f] by simp
  ultimately show ?thesis using f o that by blast
qed

lemma dominant_shuffle_of_cols:
  "for_cols (shuffle_column L rate) (map (rfft L) (columns signal)) g = Inr (nf, g') \<Longrightarrow>
   dominant_shuffle L g signal rate clip_min clip_max offset
     = Inr (restore (shape signal) (postprocess offset clip_min clip_max
             (Arr2 (nrows signal) (map (\<lambda>c. irfft L c (nrows signal)) nf))), g')"
  by (simp add: dominant_shuffle_def Let_def columns_normalise nrows_normalise)

lemma length_mix_prefix:
  "length c1 = length c2 \<Longrightarrow> length (mix_prefix lam k c1 c2) = length c1"
  by (simp add: mix_prefix_def)

lemma shape_mix_rows:
  "shape signal1 = shape signal2 \<Longrightarrow> shape (mix_rows lam k signal1 signal2) = shape signal1"
  by (cases signal1; cases signal2) (simp_all add: length_mix_prefix)

lemma wf_mix_rows:
  assumes "shape signal1 = shape signal2" and "well_formed signal1" and "well_formed signal2"
  shows "well_formed (mix_rows lam k signal1 signal2)"
proof (cases signal1)
  case (Arr1 xs)
  with assms(1) show ?thesis by (cases signal2) simp_all
next
  case a1: (Arr2 T cs)
  with assms(1) obtain ds where a2: "signal2 = Arr2 T ds" and l: "length ds = length cs"
    by (cases signal2) auto
  have "\<forall>p \<in> set (zip cs ds). length (mix_prefix lam k (fst p) (snd p)) = T"
  proof
    fix p assume p: "p \<in> set (zip cs ds)"
    obtain c d where cd: "p = (c, d)" by (cases p)
    with p have "fst p \<in> set cs" "snd p \<in> set ds"
      using set_zip_leftD[of c d cs ds] set_zip_rightD[of c d cs ds] by simp_all
    with assms(2,3) a1 a2 have "length (fst p) = T" "length (snd p) = T"
      by (auto simp: list_all_iff)
    then show "length (mix_prefix lam k (fst p) (snd p)) = T"
      by (simp add: length_mix_prefix)
  qed
  then show ?thesis using a1 a2 by (auto simp: list_all_iff)
qed

lemma mix_augmentation_Inr_eq:
  "mix_augmentation L g signal1 signal2 alpha mix_rate clip_min clip_max offset = Inr (out, g') \<Longrightarrow>
   shape signal1 = shape signal2 \<and> 0 < alpha \<and> g' = snd (random_beta L g alpha alpha) \<and>
   out = amap (\<lambda>x. np_clip clip_min clip_max (x + offset))
           (mix_rows (fst (random_beta L g alpha alpha))
              (slice_start (py_int (real (nrows signal1) * mix_rate)) (nrows signal1))
              signal1 signal2)"
  by (auto simp: mix_augmentation_def np_random_beta_def Let_def postprocess_eq
           split: if_splits prod.splits)

lemma mix_augmentation_plain:
  "shape signal1 = shape signal2 \<Longrightarrow> 0 < alpha \<Longrightarrow>
   mix_augmentation L g signal1 signal2 alpha mix_rate None None 0
     = Inr (mix_rows (fst (random_beta L g alpha alpha))
              (slice_start (py_int (real (nrows signal1) * mix_rate)) (nrows signal1))
              signal1 signal2, snd (random_beta L g alpha alpha))"
  by (simp add: mix_augmentation_def np_random_beta_def Let_def postprocess_eq np_clip_None
        amap_id split: prod.splits)

section \<open>The two operators of WaveAug, as a column loop\<close>

lemma store_col_length: "store_col L d T v = Inr w \<Longrightarrow> length w = T"
  by (auto simp: store_col_def dest: assign_col_length)

lemma augment_column_length:
  "augment_column L rates wavelet level T col g = Inr (v, g') \<Longrightarrow> length v = T"
  by (auto simp: augment_column_def Let_def split: sum.splits prod.splits
           dest: store_col_length)

lemma augment_multi_column_length:
  "augment_multi_column L rates wavelet level T cc g = Inr (v, g') \<Longrightarrow> length v = T"
  by (auto simp: augment_multi_column_def Let_def split: sum.splits prod.splits
           dest: store_col_length)

lemma length_columns_shape: "shape a = shape b \<Longrightarrow> length (columns a) = length (columns b)"
  by (cases a; cases b) simp_all

lemma nrows_shape: "shape a = shape b \<Longrightarrow> nrows a = nrows b"
  by (cases a; cases b) simp_all

lemma augment_Inr:
  assumes "augment L g signal rates wavelet level = Inr (out, g')"
  obtains cols where
    "for_cols (augment_column L rates wavelet level (nrows signal)) (columns signal) g
       = Inr (cols, g')"
    "length cols = length (columns signal)"
    "list_all (\<lambda>c. length c = nrows signal) cols"
    "out = \<lparr>dtype = Float32, array = restore (shape signal) (Arr2 (nrows signal) cols)\<rparr>"
proof -
  from assms obtain cols where
    f: "for_cols (augment_column L rates wavelet level (nrows signal)) (columns signal) g
          = Inr (cols, g')"
    and o: "out = \<lparr>dtype = Float32, array = restore (shape signal) (Arr2 (nrows signal) cols)\<rparr>"
    by (auto simp: augment_def Let_def columns_normalise nrows_normalise
             split: sum.splits prod.splits)
  have "list_all (\<lambda>c. length c = nrows signal) cols"
    by (rule for_cols_all[OF f]) (rule augment_column_length)
  with f o for_cols_length[OF f] that show ?thesis by blast
qed

lemma augment_multi_Inr:
  assumes "augment_multi L g signal1 signal2 rates wavelet level = Inr (out, g')"
  obtains cols where
    "shape signal1 = shape signal2"
    "for_cols (augment_multi_column L rates wavelet level (nrows signal1))
       (zip (columns signal1) (columns signal2)) g = Inr (cols, g')"
    "length cols = length (columns signal1)"
    "list_all (\<lambda>c. length c = nrows signal1) cols"
    "out = \<lparr>dtype = Float32, array = restore (shape signal1) (Arr2 (nrows signal1) cols)\<rparr>"
proof -
  from assms have s: "shape signal1 = shape signal2"
    by (auto simp: augment_multi_def split: if_splits)
  with assms obtain cols where
    f: "for_cols (augment_multi_column L rates wavelet level (nrows signal1))
          (zip (columns signal1) (columns signal2)) g = Inr (cols, g')"
    and o: "out = \<lparr>dtype = Float32, array = restore (shape signal1) (Arr2 (nrows signal1) cols)\<rparr>"
    by (auto simp: augment_multi_def Let_def columns_normalise nrows_normalise
             split: sum.splits prod.splits)
  have "list_all (\<lambda>c. length c = nrows signal1) cols"
    by (rule for_cols_all[OF f]) (rule augment_multi_column_length)
  moreover have "length cols = length (columns signal1)"
    using for_cols_length[OF f] length_columns_shape[OF s] by simp
  ultimately show ?thesis using s f o that by blast
qed

section \<open>Shapes without any assumption on the libraries\<close>

lemma length_ravel_Arr2: "length (ravel (Arr2 T cs)) = T * length cs"
  by (simp add: length_concat comp_def sum_list_triv)

lemma restore_shape_any:
  assumes "length cols = length (columns signal)"
  shows "shape (restore (shape signal) (Arr2 (nrows signal) cols)) = shape signal"
proof (cases signal)
  case (Arr1 xs)
  with assms have "length cols = 1" by simp
  then show ?thesis using Arr1
    by (simp add: restore_def flatten_def length_ravel_Arr2 del: ravel.simps)
next
  case (Arr2 T cs)
  with assms show ?thesis by (simp add: restore_def)
qed

lemma finish_shape_any:
  assumes "length cols = length (columns signal)"
  shows "shape (restore (shape signal)
           (postprocess offset clip_min clip_max (Arr2 (nrows signal) cols))) = shape signal"
proof -
  have "postprocess offset clip_min clip_max (Arr2 (nrows signal) cols)
        = Arr2 (nrows signal) (map (map (\<lambda>x. np_clip clip_min clip_max (x + offset))) cols)"
    by (simp add: postprocess_eq)
  then show ?thesis using restore_shape_any[of "map (map (\<lambda>x. np_clip clip_min clip_max (x + offset))) cols" signal] assms
    by simp
qed

lemma wf_columns: "well_formed a \<Longrightarrow> c \<in> set (columns a) \<Longrightarrow> length c = nrows a"
  by (cases a) (auto simp: list_all_iff)

lemma restore_self:
  "well_formed signal \<Longrightarrow> restore (shape signal) (Arr2 (nrows signal) (columns signal)) = signal"
proof (cases signal)
  case (Arr1 xs)
  then show ?thesis using restore_rank1[of xs xs] by simp
next
  case (Arr2 T cs)
  then show ?thesis by (simp add: restore_def)
qed

lemma dominant_shuffle_shape:
  assumes "dominant_shuffle L g signal rate clip_min clip_max offset = Inr (out, g')"
  shows "shape out = shape signal"
proof -
  from assms obtain nf where
    f: "for_cols (shuffle_column L rate) (map (rfft L) (columns signal)) g = Inr (nf, g')"
    and o: "out = restore (shape signal) (postprocess offset clip_min clip_max
             (Arr2 (nrows signal) (map (\<lambda>c. irfft L c (nrows signal)) nf)))"
    by (auto simp: dominant_shuffle_def Let_def columns_normalise nrows_normalise
             split: sum.splits prod.splits)
  have "length (map (\<lambda>c. irfft L c (nrows signal)) nf) = length (columns signal)"
    using for_cols_length[OF f] by simp
  from finish_shape_any[OF this] o show ?thesis by simp
qed

section \<open>The fallback of the decomposition\<close>

lemma assign_col_same: "length s = T \<Longrightarrow> assign_col T s = Inr s"
  by (simp add: assign_col_def)

lemma emd_column_degenerate:
  "emd L s n_imf = [] \<Longrightarrow> length s = T \<Longrightarrow> emd_column L n_imf p r T s g = Inr (s, g)"
  by (simp add: emd_column_def assign_col_same)

lemma emd_column_degenerate_result:
  "emd L s n_imf = [] \<Longrightarrow> length s = T \<Longrightarrow> emd_column L n_imf p r T s g = Inr (v, g') \<Longrightarrow> v = s"
  by (simp add: emd_column_degenerate)

section \<open>The small library instance has the properties relied on\<close>

lemma irfft_ok_ref: "irfft_ok ref_lib"
  by (auto simp: irfft_ok_def ref_lib_def irfft_ref_def min_def)

lemma rfft_ok_ref: "rfft_ok ref_lib"
proof -
  have "min (length xs) (Suc (length xs div 2)) = Suc (length xs div 2)" if "xs \<noteq> []" for xs :: "real list"
  proof -
    from that have "0 < length xs" by simp
    then have "Suc (length xs div 2) \<le> length xs" by arith
    then show ?thesis by (simp add: min_def)
  qed
  then show ?thesis by (simp add: rfft_ok_def ref_lib_def rfft_ref_def)
qed

lemma argsort_ok_ref: "argsort_ok ref_lib"
  by (auto simp: argsort_ok_def ref_lib_def argsort_ref_def)

lemma choice_ok_ref: "choice_ok ref_lib"
  by (simp add: choice_ok_def ref_lib_def choice_ref_def)



section \<open>Runs of the operators on small arrays\<close>

lemma topk_eval: "topk_indices ref_lib 2 (rfft_ref [1, 3, 2, 5, 0, 0]) = [1, 3]"
  by (simp add: topk_indices_def ref_lib_def rfft_ref_def argsort_ref_def slice_from_def
        slice_start_def)

lemma shuffle_column_eval:
  "shuffle_column ref_lib 2 (rfft_ref [1, 3, 2, 5, 0, 0]) 3 = Inr ([1, 5, 2, 3], 13)"
  unfolding shuffle_column_def topk_eval Let_def by code_simp

lemma shuffle_loop_eval:
  "for_cols (shuffle_column ref_lib 2) (map (rfft ref_lib) (columns (Arr1 [1, 3, 2, 5, 0, 0]))) 3
     = Inr ([[1, 5, 2, 3]], 13)"
proof -
  have r: "rfft ref_lib = rfft_ref" by (simp add: ref_lib_def)
  show ?thesis by (simp add: r shuffle_column_eval)
qed

lemma dominant_shuffle_eval:
  "dominant_shuffle ref_lib 3 (Arr1 [1, 3, 2, 5, 0, 0]) 2 (Some 0) (Some 4) 1
     = Inr (Arr1 [2, 4, 3, 4, 1, 1], 13)"
proof -
  have i: "irfft ref_lib = irfft_ref" by (simp add: ref_lib_def)
  show ?thesis
    unfolding dominant_shuffle_of_cols[OF shuffle_loop_eval]
    by (simp add: i irfft_ref_def postprocess_def np_clip_def restore_def flatten_def)
qed

lemma emd_augmentation_eval:
  "emd_augmentation ref_lib 3 (Arr2 3 [[1, 1, 1], [1, 2, 4]]) 10 (1 / 2) 1 (Some 0) (Some 3) 1
     = Inr (Arr2 3 [[2, 2, 2], [21 / 8, 23 / 8, 3]], 4)"
  by code_simp

lemma mix_augmentation_eval:
  "mix_augmentation ref_lib 3 (Arr1 [1, 2, 3, 4]) (Arr1 [5, 6, 7, 8]) (1 / 2) (1 / 2) (Some 0) (Some 5) 1
     = Inr (Arr1 [5, 5, 4, 5], 2)"
  by code_simp

lemma augment_eval:
  "augment ref_lib 3 (Arr1 [1, 2, 3, 4, 6]) [1 / 2] ''db1'' 2
     = Inr (\<lparr>dtype = Float32, array = Arr1 [2, 3, 5 / 2, 5 / 2, 6]\<rparr>, 6)"
  by code_simp

lemma augment_multi_eval:
  "augment_multi ref_lib 3 (Arr2 3 [[1, 2, 3], [4, 5, 7]]) (Arr2 3 [[0, 0, 1], [1, 0, 0]])
     [1 / 2] ''db1'' 2
     = Inr (\<lparr>dtype = Float32, array = Arr2 3 [[3 / 2, 3 / 2, 3], [4, 5, 7]]\<rparr>, 11)"
  by code_simp

section \<open>The selected bins and the inner loop of the shuffle\<close>

lemma argsort_length: "argsort_ok L \<Longrightarrow> length (argsort L xs) = length xs"
proof -
  assume ok: "argsort_ok L"
  then have d: "distinct (argsort L xs)" and s: "set (argsort L xs) = {..<length xs}"
    by (simp_all add: argsort_ok_def)
  from d have "length (argsort L xs) = card (set (argsort L xs))"
    by (simp add: distinct_card)
  with s show ?thesis by simp
qed

lemma topk_distinct: "argsort_ok L \<Longrightarrow> distinct (topk_indices L rate signal_f)"
  by (simp add: topk_indices_def slice_from_def argsort_ok_def distinct_map distinct_drop)

lemma topk_range:
  assumes "argsort_ok L" and "k \<in> set (topk_indices L rate signal_f)"
  shows "1 \<le> k \<and> k < length signal_f"
proof -
  from assms(2) obtain i where i: "i \<in> set (argsort L (map cmod (drop 1 signal_f)))" and k: "k = Suc i"
    by (auto simp: topk_indices_def slice_from_def dest: in_set_dropD)
  from assms(1) i have "i < length signal_f - 1"
    by (simp add: argsort_ok_def)
  with k show ?thesis by simp
qed

lemma topk_not_dc: "argsort_ok L \<Longrightarrow> 0 \<notin> set (topk_indices L rate signal_f)"
  using topk_range by fastforce

lemma topk_length:
  assumes "argsort_ok L"
  shows "length (topk_indices L rate signal_f)
         = (if 0 < rate then min (nat rate) (length signal_f - 1)
            else (length signal_f - 1) - nat (- rate))"
  using assms
  by (auto simp: topk_indices_def slice_from_def slice_start_def argsort_length)

lemma topk_length_in_range:
  "argsort_ok L \<Longrightarrow> 1 \<le> rate \<Longrightarrow> rate \<le> int (length signal_f - 1) \<Longrightarrow>
     length (topk_indices L rate signal_f) = nat rate"
  by (simp add: topk_length)

lemma topk_length_zero:
  "argsort_ok L \<Longrightarrow> length (topk_indices L 0 signal_f) = length signal_f - 1"
  by (simp add: topk_length)

lemma choice_okD:
  "choice_ok L \<Longrightarrow> topk \<noteq> [] \<Longrightarrow> random_choice L g topk = (r, g1) \<Longrightarrow> r \<in> set topk"
proof -
  assume ok: "choice_ok L" "topk \<noteq> []" and r: "random_choice L g topk = (r, g1)"
  from ok have "fst (random_choice L g topk) \<in> set topk" by (simp add: choice_ok_def)
  with r show ?thesis by simp
qed

lemma choice_draws_length: "length (choice_draws L g topk n) = n"
  by (induction n arbitrary: g) (simp_all add: Let_def split: prod.splits)

lemma choice_draws_mem:
  "choice_ok L \<Longrightarrow> topk \<noteq> [] \<Longrightarrow> set (choice_draws L g topk n) \<subseteq> set topk"
proof (induction n arbitrary: g)
  case 0
  then show ?case by simp
next
  case (Suc n)
  obtain r g1 where r: "random_choice L g topk = (r, g1)" by (cases "random_choice L g topk")
  with Suc.prems have "r \<in> set topk"
    by (auto dest: choice_okD)
  with Suc.IH[OF Suc.prems, of g1] r show ?case by simp
qed

lemma shuffle_bins_length:
  "shuffle_bins L sf topk js new g = Inr (new', g') \<Longrightarrow> length new' = length new"
proof (induction js arbitrary: new g)
  case Nil
  then show ?case by simp
next
  case (Cons idx js)
  obtain r g1 where r: "random_choice L g topk = (r, g1)" by (cases "random_choice L g topk")
  with Cons.prems have "shuffle_bins L sf topk js (new[idx := sf ! r]) g1 = Inr (new', g')"
    by (simp split: if_splits)
  from Cons.IH[OF this] show ?case by simp
qed

lemma shuffle_bins_frame:
  "shuffle_bins L sf topk js new g = Inr (new', g') \<Longrightarrow> k \<notin> set js \<Longrightarrow> new' ! k = new ! k"
proof (induction js arbitrary: new g)
  case Nil
  then show ?case by simp
next
  case (Cons idx js)
  obtain r g1 where r: "random_choice L g topk = (r, g1)" by (cases "random_choice L g topk")
  with Cons.prems(1) have "shuffle_bins L sf topk js (new[idx := sf ! r]) g1 = Inr (new', g')"
    by (simp split: if_splits)
  from Cons.IH[OF this] Cons.prems(2) show ?case by simp
qed

lemma shuffle_bins_written:
  "shuffle_bins L sf topk js new g = Inr (new', g') \<Longrightarrow> distinct js \<Longrightarrow> j < length js \<Longrightarrow>
     new' ! (js ! j) = sf ! (choice_draws L g topk (length js) ! j)"
proof (induction js arbitrary: new g j)
  case Nil
  then show ?case by simp
next
  case (Cons idx js)
  obtain r g1 where r: "random_choice L g topk = (r, g1)" by (cases "random_choice L g topk")
  with Cons.prems(1) have i: "idx < length new"
    and s: "shuffle_bins L sf topk js (new[idx := sf ! r]) g1 = Inr (new', g')"
    by (simp_all split: if_splits)
  show ?case
  proof (cases j)
    case 0
    from Cons.prems(2) have "idx \<notin> set js" by simp
    from shuffle_bins_frame[OF s this] i have "new' ! idx = sf ! r" by simp
    with 0 r show ?thesis by simp
  next
    case (Suc j')
    with Cons.prems have "distinct js" "j' < length js" by simp_all
    from Cons.IH[OF s this] Suc r show ?thesis by simp
  qed
qed

text \<open>With a permutation from the sort and a choice among the candidates, no index
  is out of range: the loop of one column never raises.\<close>

lemma shuffle_bins_total:
  assumes "choice_ok L" and "topk \<noteq> [] \<or> js = []"
    and "\<forall>k \<in> set topk. k < length sf" and "\<forall>k \<in> set js. k < length new"
  shows "\<exists>r. shuffle_bins L sf topk js new g = Inr r"
  using assms(2,4)
proof (induction js arbitrary: new g)
  case Nil
  then show ?case by simp
next
  case (Cons idx js)
  then have ne: "topk \<noteq> []" by simp
  obtain r g1 where r: "random_choice L g topk = (r, g1)" by (cases "random_choice L g topk")
  with assms(1) ne have "r \<in> set topk"
    by (auto dest: choice_okD)
  with assms(3) have "r < length sf" by simp
  moreover from Cons.prems have "idx < length new" by simp
  moreover have "\<exists>q. shuffle_bins L sf topk js (new[idx := sf ! r]) g1 = Inr q"
    using Cons.prems ne by (intro Cons.IH) simp_all
  ultimately show ?case using r by simp
qed

lemma shuffle_column_total:
  assumes "argsort_ok L" and "choice_ok L"
  shows "\<exists>r. shuffle_column L rate signal_f g = Inr r"
proof -
  let ?topk = "topk_indices L rate signal_f"
  have b: "\<forall>k \<in> set ?topk. k < length signal_f"
    using topk_range[OF assms(1)] by blast
  have "?topk \<noteq> [] \<or> ?topk = []" by simp
  from shuffle_bins_total[OF assms(2) this b b]
  show ?thesis by (simp add: shuffle_column_def Let_def)
qed

lemma for_cols_total:
  "(\<And>c g0. c \<in> set cs \<Longrightarrow> \<exists>r. body c g0 = Inr r) \<Longrightarrow> \<exists>r. for_cols body cs g = Inr r"
proof (induction cs arbitrary: g)
  case Nil
  then show ?case by simp
next
  case (Cons c cs)
  from Cons.prems[of c g] obtain c' g1 where b: "body c g = Inr (c', g1)" by auto
  from Cons.IH[of g1] Cons.prems obtain q where "for_cols body cs g1 = Inr q" by auto
  with b show ?case by (cases q) simp
qed

lemma dominant_shuffle_total:
  assumes "argsort_ok L" and "choice_ok L"
  shows "\<exists>r. dominant_shuffle L g signal rate clip_min clip_max offset = Inr r"
proof -
  have "\<exists>r. for_cols (shuffle_column L rate) (map (rfft L) (columns signal)) g = Inr r"
    by (rule for_cols_total) (rule shuffle_column_total[OF assms])
  then obtain nf g' where
    "for_cols (shuffle_column L rate) (map (rfft L) (columns signal)) g = Inr (nf, g')"
    by auto
  from dominant_shuffle_of_cols[OF this] show ?thesis by simp
qed

lemma shuffle_column_frame:
  "shuffle_column L rate signal_f g = Inr (new_signal_f, g') \<Longrightarrow>
   k \<notin> set (topk_indices L rate signal_f) \<Longrightarrow> new_signal_f ! k = signal_f ! k"
  by (simp add: shuffle_column_def Let_def shuffle_bins_frame)

lemma shuffle_column_length:
  "shuffle_column L rate signal_f g = Inr (new_signal_f, g') \<Longrightarrow>
   length new_signal_f = length signal_f"
  by (simp add: shuffle_column_def Let_def shuffle_bins_length)

text \<open>
  For a rate between 1 and the number of bins after the first, the candidates of one
  column are exactly \<open>rate\<close> different bins, none of them the first bin, and a run
  of the column changes no other bin.
\<close>

lemma selection_in_range:
  assumes "argsort_ok L" and "rfft_ok L" and "xs \<noteq> []"
    and "1 \<le> rate" and "rate \<le> int (length xs div 2)"
  shows "length (topk_indices L rate (rfft L xs)) = nat rate"
    and "distinct (topk_indices L rate (rfft L xs))"
    and "0 \<notin> set (topk_indices L rate (rfft L xs))"
    and "shuffle_column L rate (rfft L xs) g = Inr (new_signal_f, g') \<Longrightarrow>
         k \<notin> set (topk_indices L rate (rfft L xs)) \<Longrightarrow> new_signal_f ! k = rfft L xs ! k"
proof -
  from assms(2,3) have "length (rfft L xs) - 1 = length xs div 2"
    by (simp add: rfft_ok_def)
  with assms show "length (topk_indices L rate (rfft L xs)) = nat rate"
    by (simp add: topk_length_in_range)
qed (simp_all add: assms(1) topk_distinct topk_not_dc shuffle_column_frame)

lemma topk_zero_eval: "topk_indices ref_lib 0 (rfft ref_lib [1, 3, 2, 5]) = [2, 1]"
  by (simp add: topk_indices_def ref_lib_def rfft_ref_def argsort_ref_def slice_from_def
        slice_start_def)

lemma shuffle_column_zero_eval:
  "shuffle_column ref_lib 0 (rfft ref_lib [1, 3, 2, 5]) 3 = Inr ([1, 2, 3], 13)"
proof -
  have r: "rfft ref_lib [1, 3, 2, 5] = [1, 3, 2]"
    by (simp add: ref_lib_def rfft_ref_def)
  have "shuffle_bins ref_lib [1, 3, 2] [2, 1] [2, 1] [1, 3, 2] 3 = Inr ([1, 2, 3], 13)"
    by code_simp
  moreover have "topk_indices ref_lib 0 [1, 3, 2] = [2, 1]"
    using topk_zero_eval unfolding r .
  ultimately show ?thesis
    unfolding shuffle_column_def Let_def r by simp
qed

lemma topk_three_eval: "topk_indices ref_lib 3 (rfft ref_lib [1, 3, 2, 5, 0, 0]) = [2, 1, 3]"
  by (simp add: topk_indices_def ref_lib_def rfft_ref_def argsort_ref_def slice_from_def
        slice_start_def)

lemma shuffle_column_three_eval:
  "shuffle_column ref_lib 3 (rfft ref_lib [1, 3, 2, 5, 0, 0]) 3 = Inr ([1, 5, 2, 3], 4)"
proof -
  have r: "rfft ref_lib [1, 3, 2, 5, 0, 0] = [1, 3, 2, 5]"
    by (simp add: ref_lib_def rfft_ref_def)
  have "shuffle_bins ref_lib [1, 3, 2, 5] [2, 1, 3] [2, 1, 3] [1, 3, 2, 5] 3
          = Inr ([1, 5, 2, 3], 4)"
    by code_simp
  moreover have "topk_indices ref_lib 3 [1, 3, 2, 5] = [2, 1, 3]"
    using topk_three_eval unfolding r .
  ultimately show ?thesis
    unfolding shuffle_column_def Let_def r by simp
qed

lemma choice_draws_three_eval: "choice_draws ref_lib 3 [2, 1, 3] 3 = [2, 3, 1]"
  by code_simp

section \<open>The rate of a level, masking, and the stored column\<close>

lemma select_rate_empty: "select_rate [] i = Inl IndexError"
  by (simp add: select_rate_def py_get_def)

lemma select_rate_nonempty:
  assumes "rates \<noteq> []"
  shows "select_rate rates i = Inr (rates ! min i (length rates - 1))"
proof -
  from assms obtain n where n: "length rates = Suc n" by (cases rates) auto
  then have "min (int i) (int (length rates) - 1) = int (min i n)"
    by (simp add: min_def)
  moreover have "min i n < length rates" using n by (simp add: min_def)
  ultimately show ?thesis using n by (simp add: select_rate_def py_get_def)
qed

lemma select_rate_Inr: "select_rate rates i = Inr r \<Longrightarrow> rates \<noteq> [] \<and> r = rates ! min i (length rates - 1)"
  by (cases "rates = []") (simp_all add: select_rate_empty select_rate_nonempty)

lemma rate_extended:
  "rates \<noteq> [] \<Longrightarrow> rates ! min i (length rates - 1) = (if i < length rates then rates ! i else last rates)"
  by (auto simp: min_def last_conv_nth not_less dest: le_antisym)

lemma masked_map2:
  "map2 (\<lambda>b c. if b then 0 else c) (map (\<lambda>u. u < r) us) c_i
     = map2 (\<lambda>u c. if u < r then (0 :: real) else c) us c_i"
  by (simp add: zip_map1 split_def)

lemma mask_levels_length:
  "mask_levels L rates i cs g = Inr (cs', g') \<Longrightarrow> length cs' = length cs"
proof (induction cs arbitrary: i g cs')
  case Nil
  then show ?case by simp
next
  case (Cons c cs)
  then show ?case
    by (auto simp: Let_def split: sum.splits prod.splits)
qed

lemma mask_levels_nth:
  "mask_levels L rates i cs g = Inr (cs', g') \<Longrightarrow> k < length cs \<Longrightarrow>
     select_rate rates (i + k) = Inr (rates ! min (i + k) (length rates - 1))
     \<and> cs' ! k = map2 (\<lambda>u c. if u < rates ! min (i + k) (length rates - 1) then 0 else c)
                    (uniform_draws L g (map length cs) ! k) (cs ! k)"
proof (induction cs arbitrary: i g cs' k)
  case Nil
  then show ?case by simp
next
  case (Cons c cs)
  from Cons.prems(1) obtain r where r: "select_rate rates i = Inr r"
    by (auto split: sum.splits)
  obtain us g1 where u: "random_uniform L g (length c) = (us, g1)"
    by (cases "random_uniform L g (length c)")
  from Cons.prems(1) r u obtain rest where
    m: "mask_levels L rates (Suc i) cs g1 = Inr (rest, g')"
    and e: "cs' = map2 (\<lambda>b c. if b then 0 else c) (map (\<lambda>u. u < r) us) c # rest"
    by (auto simp: Let_def split: sum.splits prod.splits)
  from select_rate_Inr[OF r] have rr: "r = rates ! min i (length rates - 1)" by simp
  show ?case
  proof (cases k)
    case 0
    with r rr e u show ?thesis by (simp add: masked_map2)
  next
    case (Suc k')
    with Cons.prems(2) have "k' < length cs" by simp
    from Cons.IH[OF m this] Suc e u show ?thesis by simp
  qed
qed

lemma mask_coeffs_Inr:
  assumes "mask_coeffs L rates coeffs g = Inr (coeffs', g')"
  obtains ds where "mask_levels L rates 1 (drop 1 coeffs) g = Inr (ds, g')"
    and "coeffs' = take 1 coeffs @ ds"
  using assms by (auto simp: mask_coeffs_def split: sum.splits prod.splits)

lemma store_col_cases:
  assumes "store_col L d T s = Inr v"
  shows "(length s = T \<and> v = map (astype L d) s)
         \<or> (length s \<noteq> T \<and> length s = 1 \<and> v = replicate T (astype L d (hd s)))"
proof (cases "length s = T")
  case True
  with assms show ?thesis by (simp add: store_col_def assign_col_def)
next
  case False
  with assms have l: "length s = 1" and v: "v = replicate T (hd (map (astype L d) s))"
    by (auto simp: store_col_def assign_col_def split: if_splits)
  from l have "hd (map (astype L d) s) = astype L d (hd s)"
    by (cases s) simp_all
  with False l v show ?thesis by simp
qed

lemma store_col_range: "store_col L d T s = Inr v \<Longrightarrow> set v \<subseteq> range (astype L d)"
  using store_col_cases[of L d T s v] by auto

lemma store_col_truncated:
  assumes "store_col L d T (take T s) = Inr v"
  shows "(T \<le> length s \<longrightarrow> v = map (astype L d) (take T s))
         \<and> (length s < T \<longrightarrow> length s = 1 \<and> v = replicate T (astype L d (hd s)))"
proof (rule conjI; rule impI)
  assume "T \<le> length s"
  then have "length (take T s) = T" by simp
  with store_col_cases[OF assms] show "v = map (astype L d) (take T s)" by blast
next
  assume l: "length s < T"
  then have t: "take T s = s" by simp
  from l have "length s \<noteq> T" by simp
  with store_col_cases[OF assms] t
  show "length s = 1 \<and> v = replicate T (astype L d (hd s))" by auto
qed

lemma store_col_short:
  "length s < T \<Longrightarrow> length s \<noteq> 1 \<Longrightarrow>
     store_col L d T (take T s) = Inl (ValueError ''could not broadcast input array'')"
  by (simp add: store_col_def assign_col_def)

lemma augment_column_Inr:
  assumes "augment_column L rates wavelet level T col g = Inr (v, g')"
  obtains coeffs' where
    "mask_coeffs L rates (wavedec L col wavelet level) g = Inr (coeffs', g')"
    "store_col L Float32 T (take T (waverec L coeffs' wavelet)) = Inr v"
  using assms
  by (auto simp: augment_column_def Let_def split: sum.splits prod.splits)

lemma augment_multi_column_Inr:
  assumes "augment_multi_column L rates wavelet level T cc g = Inr (v, g')"
  obtains mixed_coeffs where
    "mix_levels L rates (wavedec L (snd cc) wavelet level) 0 (wavedec L (fst cc) wavelet level) g
       = Inr (mixed_coeffs, g')"
    "store_col L Float32 T (take T (waverec L mixed_coeffs wavelet)) = Inr v"
  using assms
  by (auto simp: augment_multi_column_def Let_def split: sum.splits prod.splits)

lemma uniform_draws_nth_length:
  "uniform_ok L \<Longrightarrow> k < length ns \<Longrightarrow> length (uniform_draws L g ns ! k) = ns ! k"
proof (induction ns arbitrary: g k)
  case Nil
  then show ?case by simp
next
  case (Cons n ns)
  obtain us g1 where u: "random_uniform L g n = (us, g1)" by (cases "random_uniform L g n")
  from Cons.prems(1) have "length (fst (random_uniform L g n)) = n"
    by (simp add: uniform_ok_def)
  with u have l: "length us = n" by simp
  show ?case
  proof (cases k)
    case 0
    with u l show ?thesis by simp
  next
    case (Suc k')
    with Cons.prems(2) have "k' < length ns" by simp
    from Cons.IH[OF Cons.prems(1) this, of g1] Suc u show ?thesis by simp
  qed
qed

lemma restore_elems:
  assumes "length cols = length (columns signal)"
    and "list_all (\<lambda>c. length c = nrows signal) cols"
  shows "elems (restore (shape signal) (Arr2 (nrows signal) cols)) = (\<Union>c \<in> set cols. set c)"
  by (simp add: elems_columns restore_columns[OF assms])

section \<open>Runs of the wavelet operators on small arrays\<close>

lemma mask_coeffs_eval:
  "mask_coeffs ref_lib [9 / 10, 1 / 2] (wavedec ref_lib [1, 2, 3, 4, 6] ''db1'' 2) 3
     = Inr ([[5 / 2, 6], [0, 0], [- (1 / 2), 0, 0]], 6)"
  by code_simp

lemma wavedec_eval:
  "wavedec ref_lib [1, 2, 3, 4, 6] ''db1'' 2 = [[5 / 2, 6], [- 1, 0], [- (1 / 2), - (1 / 2), 0]]"
  by code_simp

lemma uniform_draws_eval:
  "uniform_draws ref_lib 3 (map length (drop 1 (wavedec ref_lib [1, 2, 3, 4, 6] ''db1'' 2)))
     = [[3 / 16, 1 / 8], [13 / 16, 1 / 4, 7 / 16]]"
  by code_simp


lemma mask_coeffs_half_eval:
  "mask_coeffs ref_lib [1 / 2] (wavedec ref_lib [1, 2, 3, 4, 6] ''db1'' 2) 3
     = Inr ([[5 / 2, 6], [0, 0], [- (1 / 2), 0, 0]], 6)"
  by code_simp


lemma augment_rounding_eval:
  "augment ref_lib 3 (Arr1 [13 / 10, 211 / 100, 37 / 10, 4, 13 / 2]) [9 / 10, 1 / 4] ''db1'' 2
     = Inr (\<lparr>dtype = Float32, array = Arr1 [37 / 16, 25 / 8, 21 / 8, 23 / 8, 13 / 2]\<rparr>, 6)"
  by code_simp

section \<open>With libraries as specified, the operators return\<close>

lemma length_weighted_sum: "length (weighted_sum ws imf) = length (hd imf)"
  by (simp add: weighted_sum_def)

lemma emd_column_total:
  assumes "emd_ok L" and "length s = T"
  shows "\<exists>r. emd_column L n_imf p q T s g = Inr r"
proof (cases "emd L s n_imf = []")
  case True
  with assms(2) show ?thesis by (simp add: emd_column_degenerate)
next
  case False
  let ?IMF = "emd L s n_imf"
  let ?k = "max 1 (py_int (real (length ?IMF) * q))"
  let ?IMF2 = "slice_to ?k ?IMF"
  from False have "0 < length ?IMF" by simp
  then have "0 < slice_start ?k (length ?IMF)"
    by (simp add: slice_start_def)
  then have h: "hd ?IMF2 = hd ?IMF"
    by (simp add: slice_to_def)
  from False have "hd ?IMF \<in> set ?IMF" by simp
  with assms have l: "length (hd ?IMF) = T"
    by (auto simp: emd_ok_def list_all_iff)
  have "assign_col T (weighted_sum ws ?IMF2) = Inr (weighted_sum ws ?IMF2)" for ws
    by (rule assign_col_same) (simp add: length_weighted_sum h l)
  with False show ?thesis
    by (simp add: emd_column_def Let_def split: prod.splits)
qed

lemma emd_augmentation_total:
  assumes "emd_ok L" and "well_formed signal"
  shows "\<exists>r. emd_augmentation L g signal n_imf p q clip_min clip_max offset = Inr r"
proof -
  have "\<exists>r. for_cols (emd_column L n_imf p q (nrows signal)) (columns signal) g = Inr r"
  proof (rule for_cols_total)
    fix c g0 assume "c \<in> set (columns signal)"
    with assms(2) have "length c = nrows signal" by (simp add: wf_columns)
    from emd_column_total[OF assms(1) this]
    show "\<exists>r. emd_column L n_imf p q (nrows signal) c g0 = Inr r" .
  qed
  then obtain cols g' where
    "for_cols (emd_column L n_imf p q (nrows signal)) (columns signal) g = Inr (cols, g')"
    by auto
  from emd_augmentation_of_cols[OF this] show ?thesis by simp
qed

lemma mask_levels_total:
  assumes "rates \<noteq> []" and "uniform_ok L"
  shows "\<exists>cs' g'. mask_levels L rates i cs g = Inr (cs', g') \<and> map length cs' = map length cs"
proof (induction cs arbitrary: i g)
  case Nil
  then show ?case by simp
next
  case (Cons c cs)
  obtain us g1 where u: "random_uniform L g (length c) = (us, g1)"
    by (cases "random_uniform L g (length c)")
  from assms(2) have "length (fst (random_uniform L g (length c))) = length c"
    by (simp add: uniform_ok_def)
  with u have l: "length us = length c" by simp
  from Cons.IH[of "Suc i" g1] obtain cs' g' where
    "mask_levels L rates (Suc i) cs g1 = Inr (cs', g')" "map length cs' = map length cs"
    by blast
  with u l select_rate_nonempty[OF assms(1), of i] show ?case
    by (simp add: Let_def)
qed

lemma mask_coeffs_total:
  assumes "rates \<noteq> []" and "uniform_ok L"
  shows "\<exists>cs' g'. mask_coeffs L rates coeffs g = Inr (cs', g') \<and> map length cs' = map length coeffs"
proof -
  from mask_levels_total[OF assms, of 1 "drop 1 coeffs" g] obtain ds g' where
    m: "mask_levels L rates 1 (drop 1 coeffs) g = Inr (ds, g')"
    and l: "map length ds = map length (drop 1 coeffs)"
    by blast
  have "map length (take 1 coeffs @ ds) = map length (take 1 coeffs @ drop 1 coeffs)"
    using l by (simp only: map_append)
  then have "map length (take 1 coeffs @ ds) = map length coeffs"
    by (simp only: append_take_drop_id)
  with m show ?thesis by (simp add: mask_coeffs_def)
qed

lemma wavelet_ok_lengths:
  "wavelet_ok L \<Longrightarrow> length x = length y \<Longrightarrow>
     map length (wavedec L x w l) = map length (wavedec L y w l)"
  unfolding wavelet_ok_def by blast

lemma wavelet_ok_rec:
  "wavelet_ok L \<Longrightarrow> map length cs = map length (wavedec L x w l) \<Longrightarrow>
     length x \<le> length (waverec L cs w)"
  unfolding wavelet_ok_def by blast

lemma store_col_long:
  "T \<le> length s \<Longrightarrow> store_col L d T (take T s) = Inr (map (astype L d) (take T s))"
  by (simp add: store_col_def assign_col_def)

lemma augment_column_total:
  assumes "rates \<noteq> []" and "uniform_ok L" and "wavelet_ok L" and "length col = T"
  shows "\<exists>r. augment_column L rates wavelet level T col g = Inr r"
proof -
  from mask_coeffs_total[OF assms(1,2), of "wavedec L col wavelet level" g] obtain cs' g' where
    m: "mask_coeffs L rates (wavedec L col wavelet level) g = Inr (cs', g')"
    and l: "map length cs' = map length (wavedec L col wavelet level)"
    by blast
  from wavelet_ok_rec[OF assms(3) l] have "length col \<le> length (waverec L cs' wavelet)" .
  with assms(4) have "T \<le> length (waverec L cs' wavelet)" by simp
  from store_col_long[OF this, of L Float32] m show ?thesis
    by (simp add: augment_column_def Let_def)
qed


lemma augment_of_cols:
  "for_cols (augment_column L rates wavelet level (nrows signal)) (columns signal) g
     = Inr (cols, g') \<Longrightarrow>
   augment L g signal rates wavelet level
     = Inr (\<lparr>dtype = Float32, array = restore (shape signal) (Arr2 (nrows signal) cols)\<rparr>, g')"
  by (simp add: augment_def Let_def columns_normalise nrows_normalise)

lemma augment_total:
  assumes "rates \<noteq> []" and "uniform_ok L" and "wavelet_ok L" and "well_formed signal"
  shows "\<exists>r. augment L g signal rates wavelet level = Inr r"
proof -
  have "\<exists>r. for_cols (augment_column L rates wavelet level (nrows signal)) (columns signal) g = Inr r"
  proof (rule for_cols_total)
    fix c g0 assume "c \<in> set (columns signal)"
    with assms(4) have "length c = nrows signal" by (simp add: wf_columns)
    from augment_column_total[OF assms(1-3) this]
    show "\<exists>r. augment_column L rates wavelet level (nrows signal) c g0 = Inr r" .
  qed
  then obtain cols g' where
    "for_cols (augment_column L rates wavelet level (nrows signal)) (columns signal) g
       = Inr (cols, g')"
    by auto
  from augment_of_cols[OF this] show ?thesis by simp
qed

lemma np_where_same:
  "length c2 = length c1 \<Longrightarrow> length msk = length c1 \<Longrightarrow>
     \<exists>v. np_where msk c1 c2 = Inr v \<and> length v = length c1"
  by (simp add: np_where_def)

lemma mix_levels_total:
  assumes "rates \<noteq> []" and "uniform_ok L"
  shows "map length (drop i coeffs2) = map length cs1 \<Longrightarrow>
     \<exists>cs' g'. mix_levels L rates coeffs2 i cs1 g = Inr (cs', g') \<and> map length cs' = map length cs1"
proof (induction cs1 arbitrary: i g)
  case Nil
  then show ?case by simp
next
  case (Cons c1 cs1)
  from Cons.prems have ne: "drop i coeffs2 \<noteq> []" by auto
  then have i: "i < length coeffs2" by simp
  then have d: "drop i coeffs2 = coeffs2 ! i # drop (Suc i) coeffs2"
    by (simp add: Cons_nth_drop_Suc)
  with Cons.prems have lc: "length (coeffs2 ! i) = length c1"
    and rest: "map length (drop (Suc i) coeffs2) = map length cs1"
    by simp_all
  obtain us g1 where u: "random_uniform L g (length c1) = (us, g1)"
    by (cases "random_uniform L g (length c1)")
  from assms(2) have "length (fst (random_uniform L g (length c1))) = length c1"
    by (simp add: uniform_ok_def)
  with u have l: "length us = length c1" by simp
  from np_where_same[OF lc, of "map (\<lambda>u. u < rates ! min i (length rates - 1)) us"] l
  obtain v where w: "np_where (map (\<lambda>u. u < rates ! min i (length rates - 1)) us) c1 (coeffs2 ! i) = Inr v"
    and lv: "length v = length c1"
    by auto
  from Cons.IH[OF rest, of g1] obtain cs' g' where
    "mix_levels L rates coeffs2 (Suc i) cs1 g1 = Inr (cs', g')" "map length cs' = map length cs1"
    by blast
  with i u w lv select_rate_nonempty[OF assms(1), of i] show ?case
    by (simp add: Let_def)
qed

lemma augment_multi_column_total:
  assumes "rates \<noteq> []" and "uniform_ok L" and "wavelet_ok L"
    and "length c1 = T" and "length c2 = T"
  shows "\<exists>r. augment_multi_column L rates wavelet level T (c1, c2) g = Inr r"
proof -
  from assms(4,5) have "length c2 = length c1" by simp
  from wavelet_ok_lengths[OF assms(3) this]
  have e: "map length (wavedec L c2 wavelet level) = map length (wavedec L c1 wavelet level)" .
  then have "map length (drop 0 (wavedec L c2 wavelet level)) = map length (wavedec L c1 wavelet level)"
    by simp
  from mix_levels_total[OF assms(1,2) this, of g] obtain cs' g' where
    m: "mix_levels L rates (wavedec L c2 wavelet level) 0 (wavedec L c1 wavelet level) g
          = Inr (cs', g')"
    and l: "map length cs' = map length (wavedec L c1 wavelet level)"
    by blast
  from wavelet_ok_rec[OF assms(3) l] have "length c1 \<le> length (waverec L cs' wavelet)" .
  with assms(4) have "T \<le> length (waverec L cs' wavelet)" by simp
  from store_col_long[OF this, of L Float32] m show ?thesis
    by (simp add: augment_multi_column_def Let_def)
qed


lemma augment_multi_of_cols:
  "shape signal1 = shape signal2 \<Longrightarrow>
   for_cols (augment_multi_column L rates wavelet level (nrows signal1))
     (zip (columns signal1) (columns signal2)) g = Inr (cols, g') \<Longrightarrow>
   augment_multi L g signal1 signal2 rates wavelet level
     = Inr (\<lparr>dtype = Float32, array = restore (shape signal1) (Arr2 (nrows signal1) cols)\<rparr>, g')"
  by (simp add: augment_multi_def Let_def columns_normalise nrows_normalise)

lemma augment_multi_total:
  assumes "rates \<noteq> []" and "uniform_ok L" and "wavelet_ok L"
    and "well_formed signal1" and "well_formed signal2" and "shape signal1 = shape signal2"
  shows "\<exists>r. augment_multi L g signal1 signal2 rates wavelet level = Inr r"
proof -
  have "\<exists>r. for_cols (augment_multi_column L rates wavelet level (nrows signal1))
          (zip (columns signal1) (columns signal2)) g = Inr r"
  proof (rule for_cols_total)
    fix cc g0 assume cc: "cc \<in> set (zip (columns signal1) (columns signal2))"
    obtain c1 c2 where p: "cc = (c1, c2)" by (cases cc)
    with cc have "c1 \<in> set (columns signal1)" "c2 \<in> set (columns signal2)"
      using set_zip_leftD[of c1 c2] set_zip_rightD[of c1 c2] by simp_all
    with assms(4-6) have "length c1 = nrows signal1" "length c2 = nrows signal1"
      using nrows_shape[OF assms(6)] by (simp_all add: wf_columns)
    from augment_multi_column_total[OF assms(1-3) this] p
    show "\<exists>r. augment_multi_column L rates wavelet level (nrows signal1) cc g0 = Inr r"
      by simp
  qed
  then obtain cols g' where
    "for_cols (augment_multi_column L rates wavelet level (nrows signal1))
       (zip (columns signal1) (columns signal2)) g = Inr (cols, g')"
    by auto
  from augment_multi_of_cols[OF assms(6) this] show ?thesis by simp
qed

section \<open>The small library instance is a library as specified\<close>

lemma emd_ok_ref: "emd_ok ref_lib"
proof -
  have "list_all (\<lambda>m. length m = length s) (emd_ref s n)" for s n
  proof -
    have "\<forall>m \<in> set [map (\<lambda>x. x - hd s) s, map (\<lambda>x. hd s) s]. length m = length s" by simp
    then have "\<forall>m \<in> set (take (nat n) [map (\<lambda>x. x - hd s) s, map (\<lambda>x. hd s) s]). length m = length s"
      by (meson in_set_takeD)
    then show ?thesis by (simp add: emd_ref_def list_all_iff)
  qed
  then show ?thesis by (simp add: emd_ok_def ref_lib_def)
qed









section \<open>The properties\<close>

text \<open>
  C3.  \<^verbatim>\<open>mix_augmentation\<close> and \<^verbatim>\<open>WaveAug.augment_multi\<close> raise their error about the
  shapes of the two signals exactly when the two shapes differ; and the mix of a
  \<open>(5, 2)\<close> array of zeros and a \<open>(3, 2)\<close> array of zeros raises it.
\<close>

theorem shape_mismatch_iff:
  "((mix_augmentation L g s1 s2 alpha mix_rate clip_min clip_max offset
      = Inl (ValueError ''Input signals must have the same shape.'')) = (shape s1 \<noteq> shape s2))
   \<and> ((augment_multi L g s1 s2 rates wavelet level
      = Inl (ValueError ''Input signals must have the same shape'')) = (shape s1 \<noteq> shape s2))
   \<and> mix_augmentation L g (Arr2 5 [replicate 5 0, replicate 5 0])
          (Arr2 3 [replicate 3 0, replicate 3 0]) alpha mix_rate clip_min clip_max offset
      = Inl (ValueError ''Input signals must have the same shape.'')"
proof (intro conjI)
  show "(mix_augmentation L g s1 s2 alpha mix_rate clip_min clip_max offset
      = Inl (ValueError ''Input signals must have the same shape.'')) = (shape s1 \<noteq> shape s2)"
  proof
    assume a: "mix_augmentation L g s1 s2 alpha mix_rate clip_min clip_max offset
      = Inl (ValueError ''Input signals must have the same shape.'')"
    show "shape s1 \<noteq> shape s2"
    proof
      assume "shape s1 = shape s2"
      from mix_augmentation_Inl[OF a this] show False by simp
    qed
  next
    assume "shape s1 \<noteq> shape s2"
    then show "mix_augmentation L g s1 s2 alpha mix_rate clip_min clip_max offset
      = Inl (ValueError ''Input signals must have the same shape.'')"
      by (simp add: mix_augmentation_def)
  qed
  show "(augment_multi L g s1 s2 rates wavelet level
      = Inl (ValueError ''Input signals must have the same shape'')) = (shape s1 \<noteq> shape s2)"
  proof
    assume a: "augment_multi L g s1 s2 rates wavelet level
      = Inl (ValueError ''Input signals must have the same shape'')"
    show "shape s1 \<noteq> shape s2"
    proof
      assume "shape s1 = shape s2"
      from augment_multi_Inl[OF a this] show False by simp
    qed
  next
    assume "shape s1 \<noteq> shape s2"
    then show "augment_multi L g s1 s2 rates wavelet level
      = Inl (ValueError ''Input signals must have the same shape'')"
      by (simp add: augment_multi_def)
  qed
  show "mix_augmentation L g (Arr2 5 [replicate 5 0, replicate 5 0])
          (Arr2 3 [replicate 3 0, replicate 3 0]) alpha mix_rate clip_min clip_max offset
      = Inl (ValueError ''Input signals must have the same shape.'')"
    by (simp add: mix_augmentation_def)
qed

theorem shape_mismatch_witness:
  "augment_multi ref_lib 3 (Arr1 [1, 2, 3]) (Arr1 [1, 2]) [1 / 2] ''db1'' 2
     = Inl (ValueError ''Input signals must have the same shape'')
   \<and> mix_augmentation ref_lib 3 (Arr1 [1, 2, 3]) (Arr2 3 [[1, 2, 3]]) (1 / 2) 1 None None 0
     = Inl (ValueError ''Input signals must have the same shape.'')
   \<and> augment_multi ref_lib 3 (Arr2 3 [[1, 2, 3], [4, 5, 7]]) (Arr2 3 [[0, 0, 1], [1, 0, 0]])
        [1 / 2] ''db1'' 2
     \<noteq> Inl (ValueError ''Input signals must have the same shape'')"
proof -
  have d1: "shape (Arr1 [1, 2, 3]) \<noteq> shape (Arr1 [1, 2])" by simp
  have d2: "shape (Arr1 [1, 2, 3]) \<noteq> shape (Arr2 3 [[1, 2, 3]])" by simp
  have d3: "\<not> shape (Arr2 3 [[1, 2, 3], [4, 5, 7]]) \<noteq> shape (Arr2 3 [[0, 0, 1], [1, 0, 0]])"
    by simp
  note t1 = shape_mismatch_iff[of ref_lib 3 "Arr1 [1, 2, 3]" "Arr1 [1, 2]" "1 / 2" 1 None None 0
      "[1 / 2]" "''db1''" 2]
  note t2 = shape_mismatch_iff[of ref_lib 3 "Arr1 [1, 2, 3]" "Arr2 3 [[1, 2, 3]]" "1 / 2" 1 None None 0
      "[1 / 2]" "''db1''" 2]
  note t3 = shape_mismatch_iff[of ref_lib 3 "Arr2 3 [[1, 2, 3], [4, 5, 7]]"
      "Arr2 3 [[0, 0, 1], [1, 0, 0]]" "1 / 2" 1 None None 0 "[1 / 2]" "''db1''" 2]
  from t1 d1 have a: "augment_multi ref_lib 3 (Arr1 [1, 2, 3]) (Arr1 [1, 2]) [1 / 2] ''db1'' 2
     = Inl (ValueError ''Input signals must have the same shape'')" by blast
  from t2 d2 have b: "mix_augmentation ref_lib 3 (Arr1 [1, 2, 3]) (Arr2 3 [[1, 2, 3]]) (1 / 2) 1 None None 0
     = Inl (ValueError ''Input signals must have the same shape.'')" by blast
  from t3 d3 have c: "augment_multi ref_lib 3 (Arr2 3 [[1, 2, 3], [4, 5, 7]]) (Arr2 3 [[0, 0, 1], [1, 0, 0]])
        [1 / 2] ''db1'' 2
     \<noteq> Inl (ValueError ''Input signals must have the same shape'')" by blast
  from a b c show ?thesis by blast
qed

text \<open>
  C8, against the claim.  Not for every \<^verbatim>\<open>alpha\<close>: the mix draws its coefficient with
  \<^verbatim>\<open>np.random.beta(alpha, alpha)\<close> also when \<^verbatim>\<open>mix_rate = 0\<close>, and for \<^verbatim>\<open>alpha = 0\<close>
  the sampler raises, so the mix of two signals of one shape returns no array.
\<close>

theorem mix_rate_zero_alpha_zero_raises:
  "mix_augmentation ref_lib 3 (Arr1 [1, 2]) (Arr1 [5, 6]) 0 0 None None 0
     = Inl (ValueError ''a <= 0'')"
  by (simp add: mix_augmentation_def np_random_beta_def)

text \<open>
  C8, as amended.  For two signals of one shape and every \<^verbatim>\<open>alpha > 0\<close>, the mix with
  \<^verbatim>\<open>mix_rate = 0\<close>, the default offset and no clip bounds returns an array with the
  values of the first signal, whatever the second signal is and whatever coefficient the
  Beta sampler returns; the generator has advanced by that one draw.  The equality is
  that of the values: the offset 0.0 is still added to every element, which keeps its
  value.
\<close>

theorem mix_rate_zero:
  assumes "shape signal1 = shape signal2" and "0 < alpha"
  shows "mix_augmentation L g signal1 signal2 alpha 0 None None 0
           = Inr (signal1, snd (random_beta L g alpha alpha))"
  using assms
  by (simp add: mix_augmentation_def np_random_beta_def Let_def py_int_zero slice_start_zero
        mix_rows_zero postprocess_eq np_clip_None amap_id split: prod.splits)

theorem mix_rate_zero_witness:
  "mix_augmentation ref_lib 3 (Arr2 2 [[1, 2], [3, 4]]) (Arr2 2 [[5, 6], [7, 8]]) (1 / 2) 0 None None 0
     = Inr (Arr2 2 [[1, 2], [3, 4]], 2)"
proof -
  have s: "shape (Arr2 2 [[1, 2], [3, 4]]) = shape (Arr2 2 [[5, 6], [7, 8]])" by simp
  have p: "(0 :: real) < 1 / 2" by simp
  have g: "snd (random_beta ref_lib 3 (1 / 2) (1 / 2)) = 2"
    by (simp add: ref_lib_def lcg_def)
  from mix_rate_zero[OF s p, of ref_lib 3] g show ?thesis by simp
qed

text \<open>
  C1.  Each of the five operators returns an array of the shape of its input: when
  \<^verbatim>\<open>dominant_shuffle\<close>, \<^verbatim>\<open>emd_augmentation\<close>, \<^verbatim>\<open>mix_augmentation\<close>, \<^verbatim>\<open>WaveAug.augment\<close>
  or \<^verbatim>\<open>WaveAug.augment_multi\<close> returns, the shape of the result is the shape of the
  (first) input signal, so a rank 1 input of length \<open>T\<close> gives a rank 1 output of length
  \<open>T\<close> and a rank 2 input of shape \<open>(T, F)\<close> a rank 2 output of shape \<open>(T, F)\<close>.  The
  returned array holds that many values: it is well formed, for the shuffle when the
  inverse transform returns the \<open>n\<close> samples it is asked for, for the mix when its
  inputs are.  And the operators do return on well formed input when the libraries are
  as specified above: the shuffle for a sort that returns a permutation and a choice
  that returns an element of its argument, the decomposition for modes of the length
  of the column, the mix for two signals of one shape and a positive \<^verbatim>\<open>alpha\<close>, and the
  wavelet operators for a non-empty list of rates.
\<close>

theorem shape_preserved:
  "(dominant_shuffle L g signal rate clip_min clip_max offset = Inr (out1, g1) \<longrightarrow>
      shape out1 = shape signal \<and> (irfft_ok L \<longrightarrow> well_formed out1))
   \<and> (emd_augmentation L g signal n_imf p imf_rate clip_min clip_max offset = Inr (out2, g2) \<longrightarrow>
      shape out2 = shape signal \<and> well_formed out2)
   \<and> (mix_augmentation L g signal signal2 alpha mix_rate clip_min clip_max offset = Inr (out3, g3) \<longrightarrow>
      shape out3 = shape signal \<and> (well_formed signal \<and> well_formed signal2 \<longrightarrow> well_formed out3))
   \<and> (augment L g signal rates wavelet level = Inr (out4, g4) \<longrightarrow>
      shape (array out4) = shape signal \<and> well_formed (array out4))
   \<and> (augment_multi L g signal signal2 rates wavelet level = Inr (out5, g5) \<longrightarrow>
      shape (array out5) = shape signal \<and> well_formed (array out5))
   \<and> (argsort_ok L \<and> choice_ok L \<longrightarrow>
      (\<exists>r. dominant_shuffle L g signal rate clip_min clip_max offset = Inr r))
   \<and> (emd_ok L \<and> well_formed signal \<longrightarrow>
      (\<exists>r. emd_augmentation L g signal n_imf p imf_rate clip_min clip_max offset = Inr r))
   \<and> (shape signal = shape signal2 \<and> 0 < alpha \<longrightarrow>
      (\<exists>r. mix_augmentation L g signal signal2 alpha mix_rate clip_min clip_max offset = Inr r))
   \<and> (rates \<noteq> [] \<and> uniform_ok L \<and> wavelet_ok L \<and> well_formed signal \<longrightarrow>
      (\<exists>r. augment L g signal rates wavelet level = Inr r))
   \<and> (rates \<noteq> [] \<and> uniform_ok L \<and> wavelet_ok L \<and> well_formed signal
        \<and> well_formed signal2 \<and> shape signal = shape signal2 \<longrightarrow>
      (\<exists>r. augment_multi L g signal signal2 rates wavelet level = Inr r))"
proof (intro conjI impI)
  assume a: "dominant_shuffle L g signal rate clip_min clip_max offset = Inr (out1, g1)"
  then show "shape out1 = shape signal" by (rule dominant_shuffle_shape)
  assume ok: "irfft_ok L"
  from dominant_shuffle_Inr[OF a ok] obtain nf where
    l: "length nf = length (columns signal)"
    and w: "list_all (\<lambda>c. length c = nrows signal) (map (\<lambda>c. irfft L c (nrows signal)) nf)"
    and o: "out1 = restore (shape signal) (postprocess offset clip_min clip_max
             (Arr2 (nrows signal) (map (\<lambda>c. irfft L c (nrows signal)) nf)))"
    by blast
  from l have "length (map (\<lambda>c. irfft L c (nrows signal)) nf) = length (columns signal)" by simp
  from finish_wf[OF this w] o show "well_formed out1" by simp
next
  assume a: "emd_augmentation L g signal n_imf p imf_rate clip_min clip_max offset = Inr (out2, g2)"
  from emd_augmentation_Inr[OF a] obtain cols where
    l: "length cols = length (columns signal)"
    and w: "list_all (\<lambda>c. length c = nrows signal) cols"
    and o: "out2 = restore (shape signal) (postprocess offset clip_min clip_max (Arr2 (nrows signal) cols))"
    by blast
  from finish_shape[OF l w] o show "shape out2 = shape signal" by simp
  from finish_wf[OF l w] o show "well_formed out2" by simp
next
  assume a: "mix_augmentation L g signal signal2 alpha mix_rate clip_min clip_max offset = Inr (out3, g3)"
  note e = mix_augmentation_Inr_eq[OF a]
  from e show "shape out3 = shape signal" by (simp add: shape_amap shape_mix_rows)
  assume "well_formed signal \<and> well_formed signal2"
  with e show "well_formed out3" by (simp add: wf_amap wf_mix_rows)
next
  assume a: "augment L g signal rates wavelet level = Inr (out4, g4)"
  from augment_Inr[OF a] obtain cols where
    l: "length cols = length (columns signal)"
    and w: "list_all (\<lambda>c. length c = nrows signal) cols"
    and o: "out4 = \<lparr>dtype = Float32, array = restore (shape signal) (Arr2 (nrows signal) cols)\<rparr>"
    by blast
  from restore_shape[OF l w] o show "shape (array out4) = shape signal" by simp
  from restore_wf[OF l w] o show "well_formed (array out4)" by simp
next
  assume a: "augment_multi L g signal signal2 rates wavelet level = Inr (out5, g5)"
  from augment_multi_Inr[OF a] obtain cols where
    l: "length cols = length (columns signal)"
    and w: "list_all (\<lambda>c. length c = nrows signal) cols"
    and o: "out5 = \<lparr>dtype = Float32, array = restore (shape signal) (Arr2 (nrows signal) cols)\<rparr>"
    by blast
  from restore_shape[OF l w] o show "shape (array out5) = shape signal" by simp
  from restore_wf[OF l w] o show "well_formed (array out5)" by simp
next
  assume "argsort_ok L \<and> choice_ok L"
  then have "argsort_ok L" "choice_ok L" by simp_all
  then show "\<exists>r. dominant_shuffle L g signal rate clip_min clip_max offset = Inr r"
    by (rule dominant_shuffle_total)
next
  assume "emd_ok L \<and> well_formed signal"
  then have "emd_ok L" "well_formed signal" by simp_all
  then show "\<exists>r. emd_augmentation L g signal n_imf p imf_rate clip_min clip_max offset = Inr r"
    by (rule emd_augmentation_total)
next
  assume "shape signal = shape signal2 \<and> 0 < alpha"
  then have "shape signal = shape signal2" "0 < alpha" by simp_all
  then show "\<exists>r. mix_augmentation L g signal signal2 alpha mix_rate clip_min clip_max offset = Inr r"
    by (rule mix_augmentation_Inr)
next
  assume "rates \<noteq> [] \<and> uniform_ok L \<and> wavelet_ok L \<and> well_formed signal"
  then have "rates \<noteq> []" "uniform_ok L" "wavelet_ok L" "well_formed signal" by simp_all
  then show "\<exists>r. augment L g signal rates wavelet level = Inr r"
    by (rule augment_total)
next
  assume "rates \<noteq> [] \<and> uniform_ok L \<and> wavelet_ok L \<and> well_formed signal
        \<and> well_formed signal2 \<and> shape signal = shape signal2"
  then have "rates \<noteq> []" "uniform_ok L" "wavelet_ok L" "well_formed signal"
    "well_formed signal2" "shape signal = shape signal2" by simp_all
  then show "\<exists>r. augment_multi L g signal signal2 rates wavelet level = Inr r"
    by (rule augment_multi_total)
qed

theorem shape_preserved_witness:
  "dominant_shuffle ref_lib 3 (Arr1 [1, 3, 2, 5, 0, 0]) 2 (Some 0) (Some 4) 1
     = Inr (Arr1 [2, 4, 3, 4, 1, 1], 13)
   \<and> shape (Arr1 [2, 4, 3, 4, 1, 1]) = shape (Arr1 [1, 3, 2, 5, 0, 0])
   \<and> emd_augmentation ref_lib 3 (Arr2 3 [[1, 1, 1], [1, 2, 4]]) 10 (1 / 2) 1 (Some 0) (Some 3) 1
     = Inr (Arr2 3 [[2, 2, 2], [21 / 8, 23 / 8, 3]], 4)
   \<and> shape (Arr2 3 [[2, 2, 2], [21 / 8, 23 / 8, 3]]) = shape (Arr2 3 [[1, 1, 1], [1, 2, 4]])
   \<and> well_formed (Arr2 3 [[2, 2, 2], [21 / 8, 23 / 8, 3]])
   \<and> mix_augmentation ref_lib 3 (Arr1 [1, 2, 3, 4]) (Arr1 [5, 6, 7, 8]) (1 / 2) (1 / 2)
        (Some 0) (Some 5) 1 = Inr (Arr1 [5, 5, 4, 5], 2)
   \<and> shape (Arr1 [5, 5, 4, 5]) = shape (Arr1 [1, 2, 3, 4])
   \<and> augment ref_lib 3 (Arr1 [1, 2, 3, 4, 6]) [1 / 2] ''db1'' 2
     = Inr (\<lparr>dtype = Float32, array = Arr1 [2, 3, 5 / 2, 5 / 2, 6]\<rparr>, 6)
   \<and> shape (Arr1 [2, 3, 5 / 2, 5 / 2, 6]) = shape (Arr1 [1, 2, 3, 4, 6])
   \<and> augment_multi ref_lib 3 (Arr2 3 [[1, 2, 3], [4, 5, 7]]) (Arr2 3 [[0, 0, 1], [1, 0, 0]])
        [1 / 2] ''db1'' 2
     = Inr (\<lparr>dtype = Float32, array = Arr2 3 [[3 / 2, 3 / 2, 3], [4, 5, 7]]\<rparr>, 11)
   \<and> shape (Arr2 3 [[3 / 2, 3 / 2, 3], [4, 5, 7]]) = shape (Arr2 3 [[1, 2, 3], [4, 5, 7]])"
proof -
  note t1 = shape_preserved[where L = ref_lib and g = 3 and signal = "Arr1 [1, 3, 2, 5, 0, 0]"
      and rate = 2 and clip_min = "Some 0" and clip_max = "Some 4" and offset = 1
      and ?out1.0 = "Arr1 [2, 4, 3, 4, 1, 1]" and ?g1.0 = 13, THEN conjunct1, rule_format,
      OF dominant_shuffle_eval]
  note t2 = shape_preserved[where L = ref_lib and g = 3 and signal = "Arr2 3 [[1, 1, 1], [1, 2, 4]]"
      and n_imf = 10 and p = "1 / 2" and imf_rate = 1
      and clip_min = "Some 0" and clip_max = "Some 3" and offset = 1
      and ?out2.0 = "Arr2 3 [[2, 2, 2], [21 / 8, 23 / 8, 3]]" and ?g2.0 = 4,
      THEN conjunct2, THEN conjunct1, rule_format, OF emd_augmentation_eval]
  note t3 = shape_preserved[where L = ref_lib and g = 3 and signal = "Arr1 [1, 2, 3, 4]"
      and ?signal2.0 = "Arr1 [5, 6, 7, 8]" and alpha = "1 / 2" and mix_rate = "1 / 2"
      and clip_min = "Some 0" and clip_max = "Some 5" and offset = 1
      and ?out3.0 = "Arr1 [5, 5, 4, 5]" and ?g3.0 = 2,
      THEN conjunct2, THEN conjunct2, THEN conjunct1, rule_format, OF mix_augmentation_eval]
  note t4 = shape_preserved[where L = ref_lib and g = 3 and signal = "Arr1 [1, 2, 3, 4, 6]"
      and rates = "[1 / 2]" and wavelet = "''db1''" and level = 2
      and ?out4.0 = "\<lparr>dtype = Float32, array = Arr1 [2, 3, 5 / 2, 5 / 2, 6]\<rparr>" and ?g4.0 = 6,
      THEN conjunct2, THEN conjunct2, THEN conjunct2, THEN conjunct1, rule_format, OF augment_eval]
  note t5 = shape_preserved[where L = ref_lib and g = 3 and signal = "Arr2 3 [[1, 2, 3], [4, 5, 7]]"
      and ?signal2.0 = "Arr2 3 [[0, 0, 1], [1, 0, 0]]"
      and rates = "[1 / 2]" and wavelet = "''db1''" and level = 2
      and ?out5.0 = "\<lparr>dtype = Float32, array = Arr2 3 [[3 / 2, 3 / 2, 3], [4, 5, 7]]\<rparr>"
      and ?g5.0 = 11,
      THEN conjunct2, THEN conjunct2, THEN conjunct2, THEN conjunct2, THEN conjunct1,
      rule_format, OF augment_multi_eval]
  from t1 t2 t3 t4 t5 dominant_shuffle_eval emd_augmentation_eval mix_augmentation_eval
    augment_eval augment_multi_eval
  show ?thesis by simp
qed

text \<open>
  C2.  \<^verbatim>\<open>dominant_shuffle\<close>, \<^verbatim>\<open>emd_augmentation\<close> and \<^verbatim>\<open>mix_augmentation\<close> add the
  offset first and clip afterwards: the array returned with an offset and clip bounds
  is the array that the same run returns with offset 0 and no bounds, with
  \<open>x \<mapsto> clip (x + offset)\<close> applied to every value.  So when both bounds are given
  and \<open>clip_min \<le> clip_max\<close>, every value of the returned array lies in
  \<open>[clip_min, clip_max]\<close>.  (For the shuffle, the inverse transform is taken to return
  the \<open>n\<close> samples it is asked for.)
\<close>

theorem clip_after_offset:
  "(irfft_ok L \<and> dominant_shuffle L g signal rate clip_min clip_max offset = Inr (out1, g1) \<longrightarrow>
      (\<exists>raw. dominant_shuffle L g signal rate None None 0 = Inr (raw, g1)
         \<and> out1 = amap (\<lambda>x. np_clip clip_min clip_max (x + offset)) raw)
      \<and> (\<forall>lo hi. clip_min = Some lo \<and> clip_max = Some hi \<and> lo \<le> hi \<longrightarrow> elems out1 \<subseteq> {lo..hi}))
   \<and> (emd_augmentation L g signal n_imf p imf_rate clip_min clip_max offset = Inr (out2, g2) \<longrightarrow>
      (\<exists>raw. emd_augmentation L g signal n_imf p imf_rate None None 0 = Inr (raw, g2)
         \<and> out2 = amap (\<lambda>x. np_clip clip_min clip_max (x + offset)) raw)
      \<and> (\<forall>lo hi. clip_min = Some lo \<and> clip_max = Some hi \<and> lo \<le> hi \<longrightarrow> elems out2 \<subseteq> {lo..hi}))
   \<and> (mix_augmentation L g signal signal2 alpha mix_rate clip_min clip_max offset = Inr (out3, g3) \<longrightarrow>
      (\<exists>raw. mix_augmentation L g signal signal2 alpha mix_rate None None 0 = Inr (raw, g3)
         \<and> out3 = amap (\<lambda>x. np_clip clip_min clip_max (x + offset)) raw)
      \<and> (\<forall>lo hi. clip_min = Some lo \<and> clip_max = Some hi \<and> lo \<le> hi \<longrightarrow> elems out3 \<subseteq> {lo..hi}))"
proof (intro conjI impI)
  assume "irfft_ok L \<and> dominant_shuffle L g signal rate clip_min clip_max offset = Inr (out1, g1)"
  then have ok: "irfft_ok L"
    and a: "dominant_shuffle L g signal rate clip_min clip_max offset = Inr (out1, g1)"
    by simp_all
  from dominant_shuffle_Inr[OF a ok] obtain nf where
    f: "for_cols (shuffle_column L rate) (map (rfft L) (columns signal)) g = Inr (nf, g1)"
    and l: "length nf = length (columns signal)"
    and w: "list_all (\<lambda>c. length c = nrows signal) (map (\<lambda>c. irfft L c (nrows signal)) nf)"
    and o: "out1 = restore (shape signal) (postprocess offset clip_min clip_max
             (Arr2 (nrows signal) (map (\<lambda>c. irfft L c (nrows signal)) nf)))"
    by blast
  let ?cols = "map (\<lambda>c. irfft L c (nrows signal)) nf"
  let ?raw = "restore (shape signal) (Arr2 (nrows signal) ?cols)"
  from l have l': "length ?cols = length (columns signal)" by simp
  have r: "dominant_shuffle L g signal rate None None 0 = Inr (?raw, g1)"
    using dominant_shuffle_of_cols[OF f, of None None 0] by (simp add: finish_plain)
  have e: "out1 = amap (\<lambda>x. np_clip clip_min clip_max (x + offset)) ?raw"
    using o finish_amap[OF l' w] by simp
  from r e show "\<exists>raw. dominant_shuffle L g signal rate None None 0 = Inr (raw, g1)
         \<and> out1 = amap (\<lambda>x. np_clip clip_min clip_max (x + offset)) raw" by blast
  from e show "\<forall>lo hi. clip_min = Some lo \<and> clip_max = Some hi \<and> lo \<le> hi \<longrightarrow> elems out1 \<subseteq> {lo..hi}"
    using elems_clipped by blast
next
  assume a: "emd_augmentation L g signal n_imf p imf_rate clip_min clip_max offset = Inr (out2, g2)"
  from emd_augmentation_Inr[OF a] obtain cols where
    f: "for_cols (emd_column L n_imf p imf_rate (nrows signal)) (columns signal) g = Inr (cols, g2)"
    and l: "length cols = length (columns signal)"
    and w: "list_all (\<lambda>c. length c = nrows signal) cols"
    and o: "out2 = restore (shape signal) (postprocess offset clip_min clip_max (Arr2 (nrows signal) cols))"
    by blast
  let ?raw = "restore (shape signal) (Arr2 (nrows signal) cols)"
  have r: "emd_augmentation L g signal n_imf p imf_rate None None 0 = Inr (?raw, g2)"
    using emd_augmentation_of_cols[OF f, of None None 0] by (simp add: finish_plain)
  have e: "out2 = amap (\<lambda>x. np_clip clip_min clip_max (x + offset)) ?raw"
    using o finish_amap[OF l w] by simp
  from r e show "\<exists>raw. emd_augmentation L g signal n_imf p imf_rate None None 0 = Inr (raw, g2)
         \<and> out2 = amap (\<lambda>x. np_clip clip_min clip_max (x + offset)) raw" by blast
  from e show "\<forall>lo hi. clip_min = Some lo \<and> clip_max = Some hi \<and> lo \<le> hi \<longrightarrow> elems out2 \<subseteq> {lo..hi}"
    using elems_clipped by blast
next
  assume a: "mix_augmentation L g signal signal2 alpha mix_rate clip_min clip_max offset = Inr (out3, g3)"
  note e = mix_augmentation_Inr_eq[OF a]
  from e have s: "shape signal = shape signal2" by simp
  from e have p: "0 < alpha" by simp
  from e mix_augmentation_plain[OF s p, where L = L and g = g and mix_rate = mix_rate]
  show "\<exists>raw. mix_augmentation L g signal signal2 alpha mix_rate None None 0 = Inr (raw, g3)
         \<and> out3 = amap (\<lambda>x. np_clip clip_min clip_max (x + offset)) raw" by simp
  from e show "\<forall>lo hi. clip_min = Some lo \<and> clip_max = Some hi \<and> lo \<le> hi \<longrightarrow> elems out3 \<subseteq> {lo..hi}"
    using elems_clipped by blast
qed

theorem clip_after_offset_witness:
  "dominant_shuffle ref_lib 3 (Arr1 [1, 3, 2, 5, 0, 0]) 2 (Some 0) (Some 4) 1
     = Inr (Arr1 [2, 4, 3, 4, 1, 1], 13)
   \<and> elems (Arr1 [2, 4, 3, 4, 1, 1]) \<subseteq> {0..4}
   \<and> emd_augmentation ref_lib 3 (Arr2 3 [[1, 1, 1], [1, 2, 4]]) 10 (1 / 2) 1 (Some 0) (Some 3) 1
     = Inr (Arr2 3 [[2, 2, 2], [21 / 8, 23 / 8, 3]], 4)
   \<and> elems (Arr2 3 [[2, 2, 2], [21 / 8, 23 / 8, 3]]) \<subseteq> {0..3}
   \<and> mix_augmentation ref_lib 3 (Arr1 [1, 2, 3, 4]) (Arr1 [5, 6, 7, 8]) (1 / 2) (1 / 2)
        (Some 0) (Some 5) 1 = Inr (Arr1 [5, 5, 4, 5], 2)
   \<and> elems (Arr1 [5, 5, 4, 5]) \<subseteq> {0..5}"
proof -
  note t1 = clip_after_offset[where L = ref_lib and g = 3 and signal = "Arr1 [1, 3, 2, 5, 0, 0]"
      and rate = 2 and clip_min = "Some 0" and clip_max = "Some 4" and offset = 1
      and ?out1.0 = "Arr1 [2, 4, 3, 4, 1, 1]" and ?g1.0 = 13, THEN conjunct1, rule_format,
      OF conjI, OF irfft_ok_ref dominant_shuffle_eval, THEN conjunct2, rule_format, of 0 4]
  note t2 = clip_after_offset[where L = ref_lib and g = 3 and signal = "Arr2 3 [[1, 1, 1], [1, 2, 4]]"
      and n_imf = 10 and p = "1 / 2" and imf_rate = 1
      and clip_min = "Some 0" and clip_max = "Some 3" and offset = 1
      and ?out2.0 = "Arr2 3 [[2, 2, 2], [21 / 8, 23 / 8, 3]]" and ?g2.0 = 4,
      THEN conjunct2, THEN conjunct1, rule_format, OF emd_augmentation_eval,
      THEN conjunct2, rule_format, of 0 3]
  note t3 = clip_after_offset[where L = ref_lib and g = 3 and signal = "Arr1 [1, 2, 3, 4]"
      and ?signal2.0 = "Arr1 [5, 6, 7, 8]" and alpha = "1 / 2" and mix_rate = "1 / 2"
      and clip_min = "Some 0" and clip_max = "Some 5" and offset = 1
      and ?out3.0 = "Arr1 [5, 5, 4, 5]" and ?g3.0 = 2,
      THEN conjunct2, THEN conjunct2, rule_format, OF mix_augmentation_eval,
      THEN conjunct2, rule_format, of 0 5]
  have "elems (Arr1 [2, 4, 3, 4, 1, 1]) \<subseteq> {0..4}" using t1 by simp
  moreover have "elems (Arr2 3 [[2, 2, 2], [21 / 8, 23 / 8, 3]]) \<subseteq> {0..3}" using t2 by simp
  moreover have "elems (Arr1 [5, 5, 4, 5]) \<subseteq> {0..5}" using t3 by simp
  ultimately show ?thesis
    using dominant_shuffle_eval emd_augmentation_eval mix_augmentation_eval by simp
qed

text \<open>
  C4.  A column for which the decomposition returns no intrinsic mode function is not an
  error of \<^verbatim>\<open>emd_augmentation\<close>: the loop body stores the column as it is and draws
  no random number.  In the returned array that column is the input column after the
  post-processing, hence the input column itself with the default offset 0 and no clip
  bounds; and when every column is of this kind the operator returns, with these
  defaults, the input array.
\<close>

theorem emd_zero_modes:
  "(emd L s n_imf = [] \<and> length s = T \<longrightarrow> emd_column L n_imf p imf_rate T s g = Inr (s, g))
   \<and> (well_formed signal
        \<and> emd_augmentation L g signal n_imf p imf_rate clip_min clip_max offset = Inr (out, g')
        \<and> i < length (columns signal) \<and> emd L (columns signal ! i) n_imf = [] \<longrightarrow>
      columns out ! i = map (\<lambda>x. np_clip clip_min clip_max (x + offset)) (columns signal ! i))
   \<and> (well_formed signal
        \<and> emd_augmentation L g signal n_imf p imf_rate None None 0 = Inr (out0, g0)
        \<and> i < length (columns signal) \<and> emd L (columns signal ! i) n_imf = [] \<longrightarrow>
      columns out0 ! i = columns signal ! i)
   \<and> (well_formed signal \<and> (\<forall>c \<in> set (columns signal). emd L c n_imf = []) \<longrightarrow>
      emd_augmentation L g signal n_imf p imf_rate None None 0 = Inr (signal, g))"
proof -
  have col: "columns out ! i = map (\<lambda>x. np_clip cmin cmax (x + off)) (columns signal ! i)"
    if wf: "well_formed signal"
      and a: "emd_augmentation L g signal n_imf p imf_rate cmin cmax off = Inr (out, g')"
      and i: "i < length (columns signal)"
      and d: "emd L (columns signal ! i) n_imf = []"
    for out g' cmin cmax off
  proof -
    from emd_augmentation_Inr[OF a] obtain cols where
      f: "for_cols (emd_column L n_imf p imf_rate (nrows signal)) (columns signal) g = Inr (cols, g')"
      and l: "length cols = length (columns signal)"
      and w: "list_all (\<lambda>c. length c = nrows signal) cols"
      and o: "out = restore (shape signal) (postprocess off cmin cmax (Arr2 (nrows signal) cols))"
      by blast
    from for_cols_nth[OF f i] obtain ga gb where
      b: "emd_column L n_imf p imf_rate (nrows signal) (columns signal ! i) ga = Inr (cols ! i, gb)"
      by blast
    have "length (columns signal ! i) = nrows signal"
      using wf i by (simp add: wf_columns)
    from emd_column_degenerate_result[OF d this b] have "cols ! i = columns signal ! i" .
    moreover have "columns out = map (map (\<lambda>x. np_clip cmin cmax (x + off))) cols"
      using o finish_columns[OF l w] by simp
    ultimately show ?thesis using i l by simp
  qed
  show ?thesis
  proof (intro conjI impI)
    assume "emd L s n_imf = [] \<and> length s = T"
    then show "emd_column L n_imf p imf_rate T s g = Inr (s, g)"
      by (simp add: emd_column_degenerate)
  next
    assume "well_formed signal
        \<and> emd_augmentation L g signal n_imf p imf_rate clip_min clip_max offset = Inr (out, g')
        \<and> i < length (columns signal) \<and> emd L (columns signal ! i) n_imf = []"
    then show "columns out ! i = map (\<lambda>x. np_clip clip_min clip_max (x + offset)) (columns signal ! i)"
      using col by blast
  next
    assume "well_formed signal
        \<and> emd_augmentation L g signal n_imf p imf_rate None None 0 = Inr (out0, g0)
        \<and> i < length (columns signal) \<and> emd L (columns signal ! i) n_imf = []"
    then have "columns out0 ! i = map (\<lambda>x. np_clip None None (x + 0)) (columns signal ! i)"
      using col by blast
    then show "columns out0 ! i = columns signal ! i"
      by (simp add: np_clip_None)
  next
    assume h: "well_formed signal \<and> (\<forall>c \<in> set (columns signal). emd L c n_imf = [])"
    have "for_cols (emd_column L n_imf p imf_rate (nrows signal)) (columns signal) g
            = Inr (map (\<lambda>c. c) (columns signal), g)"
    proof (rule for_cols_pure)
      fix c ga assume c: "c \<in> set (columns signal)"
      with h have "emd L c n_imf = []" "length c = nrows signal"
        by (simp_all add: wf_columns)
      then show "emd_column L n_imf p imf_rate (nrows signal) c ga = Inr (c, ga)"
        by (rule emd_column_degenerate)
    qed
    then have "for_cols (emd_column L n_imf p imf_rate (nrows signal)) (columns signal) g
            = Inr (columns signal, g)" by simp
    from emd_augmentation_of_cols[OF this, of None None 0] h
    show "emd_augmentation L g signal n_imf p imf_rate None None 0 = Inr (signal, g)"
      by (simp add: finish_plain restore_self)
  qed
qed

theorem emd_zero_modes_witness:
  "emd ref_lib [5, 5, 5, 5] 10 = []
   \<and> emd_augmentation ref_lib 3 (Arr1 [5, 5, 5, 5]) 10 (1 / 2) 1 None None 0
       = Inr (Arr1 [5, 5, 5, 5], 3)
   \<and> emd_augmentation ref_lib 3 (Arr2 3 [[1, 1, 1], [1, 2, 4]]) 10 (1 / 2) 1 (Some 0) (Some 3) 1
       = Inr (Arr2 3 [[2, 2, 2], [21 / 8, 23 / 8, 3]], 4)
   \<and> columns (Arr2 3 [[2, 2, 2], [21 / 8, 23 / 8, 3]]) ! 0
       = map (\<lambda>x. np_clip (Some 0) (Some 3) (x + 1)) [1, 1, 1]"
proof -
  have e: "emd ref_lib [5, 5, 5, 5] 10 = []" "emd ref_lib [1, 1, 1] 10 = []"
    by (simp_all add: ref_lib_def emd_ref_def)
  have h: "well_formed (Arr1 [5, 5, 5, 5])
      \<and> (\<forall>c \<in> set (columns (Arr1 [5, 5, 5, 5])). emd ref_lib c 10 = [])"
    using e by simp
  note t1 = emd_zero_modes[where L = ref_lib and signal = "Arr1 [5, 5, 5, 5]" and n_imf = 10
      and p = "1 / 2" and imf_rate = 1 and g = 3,
      THEN conjunct2, THEN conjunct2, THEN conjunct2, rule_format, OF h]
  have h2: "well_formed (Arr2 3 [[1, 1, 1], [1, 2, 4]])
        \<and> emd_augmentation ref_lib 3 (Arr2 3 [[1, 1, 1], [1, 2, 4]]) 10 (1 / 2) 1 (Some 0) (Some 3) 1
            = Inr (Arr2 3 [[2, 2, 2], [21 / 8, 23 / 8, 3]], 4)
        \<and> 0 < length (columns (Arr2 3 [[1, 1, 1], [1, 2, 4]]))
        \<and> emd ref_lib (columns (Arr2 3 [[1, 1, 1], [1, 2, 4]]) ! 0) 10 = []"
    using e emd_augmentation_eval by simp
  note t2 = emd_zero_modes[where L = ref_lib and signal = "Arr2 3 [[1, 1, 1], [1, 2, 4]]"
      and n_imf = 10 and p = "1 / 2" and imf_rate = 1 and g = 3 and i = 0
      and clip_min = "Some 0" and clip_max = "Some 3" and offset = 1
      and out = "Arr2 3 [[2, 2, 2], [21 / 8, 23 / 8, 3]]" and g' = 4,
      THEN conjunct2, THEN conjunct1, rule_format, OF h2]
  from t1 t2 e emd_augmentation_eval show ?thesis by simp
qed

text \<open>
  C5.  The claim fails for \<^verbatim>\<open>rate = 0\<close>, which is at most \<open>T div 2\<close>: the slice
  \<^verbatim>\<open>[-int(rate):]\<close> is then \<^verbatim>\<open>[-0:]\<close>, the whole array, so every bin after the first
  is a candidate, not no bin.  For any sort that returns a permutation and a spectrum of
  \<open>T div 2 + 1\<close> bins, \<^verbatim>\<open>dominant_shuffle\<close> called with rate 0 on a column of \<open>T\<close>
  samples selects \<open>T div 2\<close> bins.
\<close>

theorem rate_zero_selects_every_bin:
  "argsort_ok L \<and> rfft_ok L \<and> xs \<noteq> [] \<longrightarrow>
     length (topk_indices L 0 (rfft L xs)) = length xs div 2"
proof
  assume h: "argsort_ok L \<and> rfft_ok L \<and> xs \<noteq> []"
  then have "length (rfft L xs) - 1 = length xs div 2"
    by (simp add: rfft_ok_def)
  with h show "length (topk_indices L 0 (rfft L xs)) = length xs div 2"
    by (simp add: topk_length_zero)
qed

theorem rate_zero_selects_every_bin_witness:
  "length (topk_indices ref_lib 0 (rfft ref_lib [1, 3, 2, 5])) = 2
   \<and> rfft ref_lib [1, 3, 2, 5] = [1, 3, 2]
   \<and> shuffle_column ref_lib 0 (rfft ref_lib [1, 3, 2, 5]) 3 = Inr ([1, 2, 3], 13)"
proof -
  have h: "argsort_ok ref_lib \<and> rfft_ok ref_lib \<and> [1, 3, 2, 5] \<noteq> ([] :: real list)"
    using argsort_ok_ref rfft_ok_ref by simp
  from rate_zero_selects_every_bin[where L = ref_lib and xs = "[1, 3, 2, 5]", rule_format, OF h]
  have "length (topk_indices ref_lib 0 (rfft ref_lib [1, 3, 2, 5])) = 2" by simp
  moreover have "rfft ref_lib [1, 3, 2, 5] = [1, 3, 2]"
    by (simp add: ref_lib_def rfft_ref_def)
  ultimately show ?thesis using shuffle_column_zero_eval by simp
qed

text \<open>
  C6.  In one column of \<^verbatim>\<open>dominant_shuffle\<close>, with \<open>topk\<close> the selected bins and
  \<open>rs\<close> the indices that the successive calls of \<^verbatim>\<open>np.random.choice(topk)\<close> return:
  the new spectrum has the length of the old one; its bin \<open>topk ! j\<close> holds the value
  that the spectrum as transformed has at \<open>rs ! j\<close>, whatever was written before; every
  other bin holds its old value; and every \<open>rs ! j\<close> is itself a selected bin when the
  choice returns an element of its argument.  Nothing keeps \<open>rs ! j\<close> away from
  \<open>topk ! j\<close> or from another draw.  The sort is taken to return a permutation.
\<close>

theorem replacements_read_original:
  "argsort_ok L \<and> shuffle_column L rate signal_f g = Inr (new_signal_f, g') \<longrightarrow>
     length new_signal_f = length signal_f
     \<and> (\<forall>j < length (topk_indices L rate signal_f).
           new_signal_f ! (topk_indices L rate signal_f ! j)
             = signal_f ! (choice_draws L g (topk_indices L rate signal_f)
                             (length (topk_indices L rate signal_f)) ! j))
     \<and> (\<forall>k. k \<notin> set (topk_indices L rate signal_f) \<longrightarrow> new_signal_f ! k = signal_f ! k)
     \<and> (choice_ok L \<longrightarrow>
           set (choice_draws L g (topk_indices L rate signal_f)
                  (length (topk_indices L rate signal_f)))
             \<subseteq> set (topk_indices L rate signal_f))"
proof (intro impI conjI allI)
  assume h: "argsort_ok L \<and> shuffle_column L rate signal_f g = Inr (new_signal_f, g')"
  let ?topk = "topk_indices L rate signal_f"
  from h have s: "shuffle_bins L signal_f ?topk ?topk signal_f g = Inr (new_signal_f, g')"
    by (simp add: shuffle_column_def Let_def)
  from h have d: "distinct ?topk" by (simp add: topk_distinct)
  from h have sc: "shuffle_column L rate signal_f g = Inr (new_signal_f, g')" by simp
  from shuffle_column_length[OF sc] show "length new_signal_f = length signal_f" .
  show "new_signal_f ! (?topk ! j) = signal_f ! (choice_draws L g ?topk (length ?topk) ! j)"
    if "j < length ?topk" for j
    using shuffle_bins_written[OF s d that] .
  show "new_signal_f ! k = signal_f ! k" if "k \<notin> set ?topk" for k
    using shuffle_bins_frame[OF s that] .
  show "set (choice_draws L g ?topk (length ?topk)) \<subseteq> set ?topk" if ok: "choice_ok L"
  proof (cases "?topk = []")
    case True
    then show ?thesis by simp
  next
    case False
    from choice_draws_mem[OF ok False] show ?thesis .
  qed
qed

theorem replacements_read_original_witness:
  "shuffle_column ref_lib 3 (rfft ref_lib [1, 3, 2, 5, 0, 0]) 3 = Inr ([1, 5, 2, 3], 4)
   \<and> rfft ref_lib [1, 3, 2, 5, 0, 0] = [1, 3, 2, 5]
   \<and> topk_indices ref_lib 3 (rfft ref_lib [1, 3, 2, 5, 0, 0]) = [2, 1, 3]
   \<and> choice_draws ref_lib 3 [2, 1, 3] 3 = [2, 3, 1]
   \<and> [1, 5, 2, 3] ! ([2, 1, 3] ! 0) = rfft ref_lib [1, 3, 2, 5, 0, 0] ! 2
   \<and> [1, 5, 2, 3] ! ([2, 1, 3] ! 1) = rfft ref_lib [1, 3, 2, 5, 0, 0] ! 3
   \<and> [1, 5, 2, 3] ! ([2, 1, 3] ! 2) = rfft ref_lib [1, 3, 2, 5, 0, 0] ! 1
   \<and> ([1, 5, 2, 3] :: complex list) ! 0 = rfft ref_lib [1, 3, 2, 5, 0, 0] ! 0"
proof -
  have r: "rfft ref_lib [1, 3, 2, 5, 0, 0] = [1, 3, 2, 5]"
    by (simp add: ref_lib_def rfft_ref_def)
  have h: "argsort_ok ref_lib
      \<and> shuffle_column ref_lib 3 (rfft ref_lib [1, 3, 2, 5, 0, 0]) 3 = Inr ([1, 5, 2, 3], 4)"
    using argsort_ok_ref shuffle_column_three_eval by simp
  note t = replacements_read_original[where L = ref_lib and rate = 3
      and signal_f = "rfft ref_lib [1, 3, 2, 5, 0, 0]" and g = 3
      and new_signal_f = "[1, 5, 2, 3]" and g' = 4, rule_format, OF h,
      unfolded topk_three_eval]
  from t have w: "\<forall>j < length [2, 1, 3 :: nat]. ([1, 5, 2, 3] :: complex list) ! ([2, 1, 3] ! j)
      = rfft ref_lib [1, 3, 2, 5, 0, 0] ! (choice_draws ref_lib 3 [2, 1, 3] (length [2, 1, 3 :: nat]) ! j)"
    by blast
  from t have f: "\<forall>k. k \<notin> set [2, 1, 3 :: nat] \<longrightarrow>
      ([1, 5, 2, 3] :: complex list) ! k = rfft ref_lib [1, 3, 2, 5, 0, 0] ! k"
    by blast
  have c: "choice_draws ref_lib 3 [2, 1, 3] (length [2, 1, 3 :: nat]) = [2, 3, 1]"
    by code_simp
  from w[rule_format, of 0] c have a0: "([1, 5, 2, 3] :: complex list) ! ([2, 1, 3] ! 0)
      = rfft ref_lib [1, 3, 2, 5, 0, 0] ! 2" by simp
  from w[rule_format, of 1] c have a1: "([1, 5, 2, 3] :: complex list) ! ([2, 1, 3] ! 1)
      = rfft ref_lib [1, 3, 2, 5, 0, 0] ! 3" by simp
  from w[rule_format, of 2] c have a2: "([1, 5, 2, 3] :: complex list) ! ([2, 1, 3] ! 2)
      = rfft ref_lib [1, 3, 2, 5, 0, 0] ! 1" by simp
  from f[rule_format, of 0] have a3: "([1, 5, 2, 3] :: complex list) ! 0
      = rfft ref_lib [1, 3, 2, 5, 0, 0] ! 0" by simp
  from a0 a1 a2 a3 r shuffle_column_three_eval topk_three_eval choice_draws_three_eval
  show ?thesis by blast
qed

text \<open>
  C7.  In \<^verbatim>\<open>WaveAug.augment\<close> the coefficient arrays that go into the inverse transform
  are those of the decomposition with the arrays at the indices \<open>i \<ge> 1\<close> masked: the
  array at index 0, the approximation, is the one the decomposition returned, for every
  input and every state of the random generator.  For \<open>i \<ge> 1\<close> the rate of the level is
  \<^verbatim>\<open>rates[min(i, len(rates) - 1)]\<close>, which is \<^verbatim>\<open>rates[i]\<close> while \<open>i\<close> is an index of
  \<open>rates\<close> and the last rate beyond, and a coefficient is replaced by 0 exactly when
  its own uniform sample is below that rate and is kept otherwise; there is one sample
  for each coefficient when the sampler returns the shape it is asked for.
\<close>

theorem approximation_never_masked:
  "(augment_column L rates wavelet level T col g = Inr (v, g') \<longrightarrow>
      (\<exists>coeffs'. mask_coeffs L rates (wavedec L col wavelet level) g = Inr (coeffs', g')
         \<and> store_col L Float32 T (take T (waverec L coeffs' wavelet)) = Inr v))
   \<and> (mask_coeffs L rates coeffs g = Inr (coeffs', g1) \<longrightarrow>
      length coeffs' = length coeffs
      \<and> (coeffs \<noteq> [] \<longrightarrow> coeffs' ! 0 = coeffs ! 0)
      \<and> (\<forall>i. 1 \<le> i \<and> i < length coeffs \<longrightarrow>
            select_rate rates i = Inr (rates ! min i (length rates - 1))
            \<and> rates ! min i (length rates - 1) = (if i < length rates then rates ! i else last rates)
            \<and> coeffs' ! i
                = map2 (\<lambda>u c. if u < rates ! min i (length rates - 1) then 0 else c)
                    (uniform_draws L g (map length (drop 1 coeffs)) ! (i - 1)) (coeffs ! i)
            \<and> (uniform_ok L \<longrightarrow> length (coeffs' ! i) = length (coeffs ! i))))"
proof (rule conjI; rule impI)
  assume "augment_column L rates wavelet level T col g = Inr (v, g')"
  from augment_column_Inr[OF this]
  show "\<exists>coeffs'. mask_coeffs L rates (wavedec L col wavelet level) g = Inr (coeffs', g')
         \<and> store_col L Float32 T (take T (waverec L coeffs' wavelet)) = Inr v"
    by blast
next
  assume a: "mask_coeffs L rates coeffs g = Inr (coeffs', g1)"
  from mask_coeffs_Inr[OF a] obtain ds where
    m: "mask_levels L rates 1 (drop 1 coeffs) g = Inr (ds, g1)"
    and e: "coeffs' = take 1 coeffs @ ds"
    by blast
  from mask_levels_length[OF m] have l: "length ds = length coeffs - 1" by simp
  have len: "length coeffs' = length coeffs"
    using e l by (cases coeffs) simp_all
  have first: "coeffs' ! 0 = coeffs ! 0" if "coeffs \<noteq> []"
    using that e by (cases coeffs) simp_all
  have level: "select_rate rates i = Inr (rates ! min i (length rates - 1))
      \<and> rates ! min i (length rates - 1) = (if i < length rates then rates ! i else last rates)
      \<and> coeffs' ! i
          = map2 (\<lambda>u c. if u < rates ! min i (length rates - 1) then 0 else c)
              (uniform_draws L g (map length (drop 1 coeffs)) ! (i - 1)) (coeffs ! i)
      \<and> (uniform_ok L \<longrightarrow> length (coeffs' ! i) = length (coeffs ! i))"
    if i: "1 \<le> i \<and> i < length coeffs" for i
  proof -
    from i have k: "i - 1 < length (drop 1 coeffs)" by auto
    from i have s: "1 + (i - 1) = i" by auto
    note n = mask_levels_nth[OF m k, unfolded s]
    from n have r: "select_rate rates i = Inr (rates ! min i (length rates - 1))" by simp
    from select_rate_Inr[OF r] have ne: "rates \<noteq> []" by simp
    from i e have c: "coeffs' ! i = ds ! (i - 1)"
      by (cases coeffs) (simp_all add: nth_Cons')
    from i have d: "drop 1 coeffs ! (i - 1) = coeffs ! i" by auto
    have u: "length (uniform_draws L g (map length (drop 1 coeffs)) ! (i - 1)) = length (coeffs ! i)"
      if "uniform_ok L"
      using uniform_draws_nth_length[OF that, of "i - 1" "map length (drop 1 coeffs)" g] k d
      by simp
    from n c d have q: "coeffs' ! i
          = map2 (\<lambda>u c. if u < rates ! min i (length rates - 1) then 0 else c)
              (uniform_draws L g (map length (drop 1 coeffs)) ! (i - 1)) (coeffs ! i)" by simp
    from q u have "uniform_ok L \<longrightarrow> length (coeffs' ! i) = length (coeffs ! i)" by simp
    with q r rate_extended[OF ne, of i] show ?thesis by simp
  qed
  from len first level
  show "length coeffs' = length coeffs
      \<and> (coeffs \<noteq> [] \<longrightarrow> coeffs' ! 0 = coeffs ! 0)
      \<and> (\<forall>i. 1 \<le> i \<and> i < length coeffs \<longrightarrow>
            select_rate rates i = Inr (rates ! min i (length rates - 1))
            \<and> rates ! min i (length rates - 1) = (if i < length rates then rates ! i else last rates)
            \<and> coeffs' ! i
                = map2 (\<lambda>u c. if u < rates ! min i (length rates - 1) then 0 else c)
                    (uniform_draws L g (map length (drop 1 coeffs)) ! (i - 1)) (coeffs ! i)
            \<and> (uniform_ok L \<longrightarrow> length (coeffs' ! i) = length (coeffs ! i)))"
    by blast
qed

theorem approximation_never_masked_witness:
  "wavedec ref_lib [1, 2, 3, 4, 6] ''db1'' 2 = [[5 / 2, 6], [- 1, 0], [- (1 / 2), - (1 / 2), 0]]
   \<and> mask_coeffs ref_lib [9 / 10, 1 / 2] (wavedec ref_lib [1, 2, 3, 4, 6] ''db1'' 2) 3
     = Inr ([[5 / 2, 6], [0, 0], [- (1 / 2), 0, 0]], 6)
   \<and> [[5 / 2, 6], [0, 0], [- (1 / 2), 0, 0]] ! 0
       = wavedec ref_lib [1, 2, 3, 4, 6] ''db1'' 2 ! 0
   \<and> select_rate [9 / 10, 1 / 2] 2 = Inr (1 / 2)
   \<and> [[5 / 2, 6], [0, 0], [- (1 / 2), 0, 0]] ! 2
       = map2 (\<lambda>u c. if u < 1 / 2 then 0 else c) [13 / 16, 1 / 4, 7 / 16 :: real]
           (wavedec ref_lib [1, 2, 3, 4, 6] ''db1'' 2 ! 2)"
proof -
  note t = approximation_never_masked[where L = ref_lib and rates = "[9 / 10, 1 / 2]"
      and coeffs = "wavedec ref_lib [1, 2, 3, 4, 6] ''db1'' 2" and g = 3
      and coeffs' = "[[5 / 2, 6], [0, 0], [- (1 / 2), 0, 0]]" and ?g1.0 = 6,
      THEN conjunct2, rule_format, OF mask_coeffs_eval]
  have ne: "wavedec ref_lib [1, 2, 3, 4, 6] ''db1'' 2 \<noteq> []"
    by (simp add: wavedec_eval)
  from t ne have a: "[[5 / 2, 6], [0, 0], [- (1 / 2), 0, 0]] ! 0
       = wavedec ref_lib [1, 2, 3, 4, 6] ''db1'' 2 ! 0" by blast
  have i: "1 \<le> (2 :: nat) \<and> 2 < length (wavedec ref_lib [1, 2, 3, 4, 6] ''db1'' 2)"
    by (simp add: wavedec_eval)
  from t have "\<forall>i. 1 \<le> i \<and> i < length (wavedec ref_lib [1, 2, 3, 4, 6] ''db1'' 2) \<longrightarrow>
            select_rate [9 / 10, 1 / 2] i = Inr ([9 / 10, 1 / 2] ! min i (length [9 / 10, 1 / 2 :: real] - 1))
            \<and> [[5 / 2, 6], [0, 0], [- (1 / 2), 0, 0]] ! i
                = map2 (\<lambda>u c. if u < [9 / 10, 1 / 2] ! min i (length [9 / 10, 1 / 2 :: real] - 1) then 0 else c)
                    (uniform_draws ref_lib 3 (map length (drop 1 (wavedec ref_lib [1, 2, 3, 4, 6] ''db1'' 2))) ! (i - 1))
                    (wavedec ref_lib [1, 2, 3, 4, 6] ''db1'' 2 ! i)"
    by blast
  from this[rule_format, OF i, unfolded uniform_draws_eval]
  have b: "select_rate [9 / 10, 1 / 2] 2 = Inr (1 / 2)
     \<and> [[5 / 2, 6], [0, 0], [- (1 / 2), 0, 0]] ! 2
       = map2 (\<lambda>u c. if u < 1 / 2 then 0 else c) [13 / 16, 1 / 4, 7 / 16 :: real]
           (wavedec ref_lib [1, 2, 3, 4, 6] ''db1'' 2 ! 2)"
    by simp
  from a b wavedec_eval mask_coeffs_eval show ?thesis by blast
qed



text \<open>
  C10.  The array that \<^verbatim>\<open>WaveAug.augment\<close> and \<^verbatim>\<open>WaveAug.augment_multi\<close> return is the
  buffer made with \<^verbatim>\<open>dtype=np.float32\<close>: its element type is single precision,
  whatever the input array is (the operators never read the element type of their
  input, which therefore has none in this model), and every value in it is a value
  converted to single precision.  Column by column, the output is the conversion of the
  first \<open>T\<close> samples of the reconstruction.
\<close>

theorem single_precision_output:
  "(augment L g signal rates wavelet level = Inr (out, g') \<longrightarrow>
      dtype out = Float32
      \<and> elems (array out) \<subseteq> range (astype L Float32)
      \<and> (\<forall>i < length (columns signal).
            \<exists>coeffs' ga gb.
              mask_coeffs L rates (wavedec L (columns signal ! i) wavelet level) ga
                = Inr (coeffs', gb)
              \<and> (nrows signal \<le> length (waverec L coeffs' wavelet) \<longrightarrow>
                   columns (array out) ! i
                     = map (astype L Float32) (take (nrows signal) (waverec L coeffs' wavelet)))))
   \<and> (augment_multi L g signal signal2 rates wavelet level = Inr (out2, g2) \<longrightarrow>
      dtype out2 = Float32
      \<and> elems (array out2) \<subseteq> range (astype L Float32)
      \<and> (\<forall>i < length (columns signal).
            \<exists>mixed ga gb.
              mix_levels L rates (wavedec L (columns signal2 ! i) wavelet level) 0
                (wavedec L (columns signal ! i) wavelet level) ga = Inr (mixed, gb)
              \<and> (nrows signal \<le> length (waverec L mixed wavelet) \<longrightarrow>
                   columns (array out2) ! i
                     = map (astype L Float32) (take (nrows signal) (waverec L mixed wavelet)))))"
proof (rule conjI; rule impI)
  assume a: "augment L g signal rates wavelet level = Inr (out, g')"
  from augment_Inr[OF a] obtain cols where
    f: "for_cols (augment_column L rates wavelet level (nrows signal)) (columns signal) g
          = Inr (cols, g')"
    and l: "length cols = length (columns signal)"
    and w: "list_all (\<lambda>c. length c = nrows signal) cols"
    and o: "out = \<lparr>dtype = Float32, array = restore (shape signal) (Arr2 (nrows signal) cols)\<rparr>"
    by blast
  have c: "columns (array out) = cols" using o restore_columns[OF l w] by simp
  have r: "list_all (\<lambda>v. set v \<subseteq> range (astype L Float32)) cols"
  proof (rule for_cols_all[OF f])
    fix col ga v gb
    assume "augment_column L rates wavelet level (nrows signal) col ga = Inr (v, gb)"
    from augment_column_Inr[OF this] obtain coeffs' where
      "store_col L Float32 (nrows signal) (take (nrows signal) (waverec L coeffs' wavelet)) = Inr v"
      by blast
    then show "set v \<subseteq> range (astype L Float32)" by (rule store_col_range)
  qed
  have e: "elems (array out) \<subseteq> range (astype L Float32)"
    using o r restore_elems[OF l w] by (auto simp: list_all_iff)
  have k: "\<exists>coeffs' ga gb.
              mask_coeffs L rates (wavedec L (columns signal ! i) wavelet level) ga
                = Inr (coeffs', gb)
              \<and> (nrows signal \<le> length (waverec L coeffs' wavelet) \<longrightarrow>
                   columns (array out) ! i
                     = map (astype L Float32) (take (nrows signal) (waverec L coeffs' wavelet)))"
    if i: "i < length (columns signal)" for i
  proof -
    from for_cols_nth[OF f i] obtain ga gb where
      b: "augment_column L rates wavelet level (nrows signal) (columns signal ! i) ga
            = Inr (cols ! i, gb)" by blast
    from augment_column_Inr[OF b] obtain coeffs' where
      m: "mask_coeffs L rates (wavedec L (columns signal ! i) wavelet level) ga = Inr (coeffs', gb)"
      and s: "store_col L Float32 (nrows signal) (take (nrows signal) (waverec L coeffs' wavelet))
                = Inr (cols ! i)"
      by blast
    from store_col_truncated[OF s] have
      "nrows signal \<le> length (waverec L coeffs' wavelet) \<longrightarrow>
         cols ! i = map (astype L Float32) (take (nrows signal) (waverec L coeffs' wavelet))"
      by (rule conjunct1)
    with m c show ?thesis by blast
  qed
  from o have dt: "dtype out = Float32" by simp
  from dt e k show "dtype out = Float32
      \<and> elems (array out) \<subseteq> range (astype L Float32)
      \<and> (\<forall>i < length (columns signal).
            \<exists>coeffs' ga gb.
              mask_coeffs L rates (wavedec L (columns signal ! i) wavelet level) ga
                = Inr (coeffs', gb)
              \<and> (nrows signal \<le> length (waverec L coeffs' wavelet) \<longrightarrow>
                   columns (array out) ! i
                     = map (astype L Float32) (take (nrows signal) (waverec L coeffs' wavelet))))"
    by blast
next
  assume a: "augment_multi L g signal signal2 rates wavelet level = Inr (out2, g2)"
  from augment_multi_Inr[OF a] obtain cols where
    sh: "shape signal = shape signal2"
    and f: "for_cols (augment_multi_column L rates wavelet level (nrows signal))
              (zip (columns signal) (columns signal2)) g = Inr (cols, g2)"
    and l: "length cols = length (columns signal)"
    and w: "list_all (\<lambda>c. length c = nrows signal) cols"
    and o: "out2 = \<lparr>dtype = Float32, array = restore (shape signal) (Arr2 (nrows signal) cols)\<rparr>"
    by blast
  have c: "columns (array out2) = cols" using o restore_columns[OF l w] by simp
  have r: "list_all (\<lambda>v. set v \<subseteq> range (astype L Float32)) cols"
  proof (rule for_cols_all[OF f])
    fix cc ga v gb
    assume "augment_multi_column L rates wavelet level (nrows signal) cc ga = Inr (v, gb)"
    from augment_multi_column_Inr[OF this] obtain mixed where
      "store_col L Float32 (nrows signal) (take (nrows signal) (waverec L mixed wavelet)) = Inr v"
      by blast
    then show "set v \<subseteq> range (astype L Float32)" by (rule store_col_range)
  qed
  have e: "elems (array out2) \<subseteq> range (astype L Float32)"
    using o r restore_elems[OF l w] by (auto simp: list_all_iff)
  have k: "\<exists>mixed ga gb.
              mix_levels L rates (wavedec L (columns signal2 ! i) wavelet level) 0
                (wavedec L (columns signal ! i) wavelet level) ga = Inr (mixed, gb)
              \<and> (nrows signal \<le> length (waverec L mixed wavelet) \<longrightarrow>
                   columns (array out2) ! i
                     = map (astype L Float32) (take (nrows signal) (waverec L mixed wavelet)))"
    if i: "i < length (columns signal)" for i
  proof -
    from i length_columns_shape[OF sh]
    have iz: "i < length (zip (columns signal) (columns signal2))" by simp
    then have z: "zip (columns signal) (columns signal2) ! i = (columns signal ! i, columns signal2 ! i)"
      by simp
    from for_cols_nth[OF f iz] obtain ga gb where
      b: "augment_multi_column L rates wavelet level (nrows signal)
            (columns signal ! i, columns signal2 ! i) ga = Inr (cols ! i, gb)"
      unfolding z by blast
    from augment_multi_column_Inr[OF b] obtain mixed where
      m: "mix_levels L rates (wavedec L (columns signal2 ! i) wavelet level) 0
            (wavedec L (columns signal ! i) wavelet level) ga = Inr (mixed, gb)"
      and s: "store_col L Float32 (nrows signal) (take (nrows signal) (waverec L mixed wavelet))
                = Inr (cols ! i)"
      by auto
    from store_col_truncated[OF s] have
      "nrows signal \<le> length (waverec L mixed wavelet) \<longrightarrow>
         cols ! i = map (astype L Float32) (take (nrows signal) (waverec L mixed wavelet))"
      by (rule conjunct1)
    with m c show ?thesis by blast
  qed
  from o have dt: "dtype out2 = Float32" by simp
  from dt e k show "dtype out2 = Float32
      \<and> elems (array out2) \<subseteq> range (astype L Float32)
      \<and> (\<forall>i < length (columns signal).
            \<exists>mixed ga gb.
              mix_levels L rates (wavedec L (columns signal2 ! i) wavelet level) 0
                (wavedec L (columns signal ! i) wavelet level) ga = Inr (mixed, gb)
              \<and> (nrows signal \<le> length (waverec L mixed wavelet) \<longrightarrow>
                   columns (array out2) ! i
                     = map (astype L Float32) (take (nrows signal) (waverec L mixed wavelet))))"
    by blast
qed

theorem single_precision_output_witness:
  "augment ref_lib 3 (Arr1 [13 / 10, 211 / 100, 37 / 10, 4, 13 / 2]) [9 / 10, 1 / 4] ''db1'' 2
     = Inr (\<lparr>dtype = Float32, array = Arr1 [37 / 16, 25 / 8, 21 / 8, 23 / 8, 13 / 2]\<rparr>, 6)
   \<and> dtype \<lparr>dtype = Float32, array = Arr1 [37 / 16, 25 / 8, 21 / 8, 23 / 8, 13 / 2]\<rparr> = Float32
   \<and> elems (Arr1 [37 / 16, 25 / 8, 21 / 8, 23 / 8, 13 / 2]) \<subseteq> range (astype ref_lib Float32)
   \<and> astype ref_lib Float32 (949 / 400) = 37 / 16
   \<and> augment_multi ref_lib 3 (Arr2 3 [[1, 2, 3], [4, 5, 7]]) (Arr2 3 [[0, 0, 1], [1, 0, 0]])
        [1 / 2] ''db1'' 2
     = Inr (\<lparr>dtype = Float32, array = Arr2 3 [[3 / 2, 3 / 2, 3], [4, 5, 7]]\<rparr>, 11)
   \<and> elems (Arr2 3 [[3 / 2, 3 / 2, 3], [4, 5, 7]]) \<subseteq> range (astype ref_lib Float32)"
proof -
  note t1 = single_precision_output[where L = ref_lib and g = 3
      and signal = "Arr1 [13 / 10, 211 / 100, 37 / 10, 4, 13 / 2]" and rates = "[9 / 10, 1 / 4]"
      and wavelet = "''db1''" and level = 2
      and out = "\<lparr>dtype = Float32, array = Arr1 [37 / 16, 25 / 8, 21 / 8, 23 / 8, 13 / 2]\<rparr>"
      and g' = 6, THEN conjunct1, rule_format, OF augment_rounding_eval]
  note t2 = single_precision_output[where L = ref_lib and g = 3
      and signal = "Arr2 3 [[1, 2, 3], [4, 5, 7]]" and ?signal2.0 = "Arr2 3 [[0, 0, 1], [1, 0, 0]]"
      and rates = "[1 / 2]" and wavelet = "''db1''" and level = 2
      and ?out2.0 = "\<lparr>dtype = Float32, array = Arr2 3 [[3 / 2, 3 / 2, 3], [4, 5, 7]]\<rparr>"
      and ?g2.0 = 11, THEN conjunct2, rule_format, OF augment_multi_eval]
  have a: "astype ref_lib Float32 (949 / 400) = 37 / 16"
    by (simp add: ref_lib_def astype_ref_def)
  from t1[THEN conjunct2, THEN conjunct1]
  have b: "elems (Arr1 [37 / 16, 25 / 8, 21 / 8, 23 / 8, 13 / 2])
      \<subseteq> range (astype ref_lib Float32)" by (simp only: typed_array.simps)
  from t2[THEN conjunct2, THEN conjunct1]
  have c: "elems (Arr2 3 [[3 / 2, 3 / 2, 3], [4, 5, 7]])
      \<subseteq> range (astype ref_lib Float32)" by (simp only: typed_array.simps)
  have d: "dtype \<lparr>dtype = Float32, array = Arr1 [37 / 16, 25 / 8, 21 / 8, 23 / 8, 13 / 2]\<rparr> = Float32"
    by simp
  from a b c d augment_rounding_eval augment_multi_eval show ?thesis by blast
qed

end
